theory Spec2Isabelle
  imports Main
begin

section \<open>Values, errors and the outside world\<close>

text \<open>
  The program is a single Python module, \<^verbatim>\<open>tgnoti.py\<close>. It talks to a remote bot API
  through the \<^verbatim>\<open>requests\<close> library and exchanges JSON. Decoded JSON is modelled by the
  datatype below; JSON numbers are restricted to integers (the identifiers, widths and
  status codes the program handles are integers).
\<close>

datatype json =
    JNull
  | JBool bool
  | JInt int
  | JStr string
  | JList "json list"
  | JObj "(string \<times> json) list"

text \<open>
  Every exception the modelled code can raise is a value. \<open>TGException\<close> is the
  program's own exception class (the spec's \<open>RequestFailed\<close>) and carries its message;
  the others are Python's built-in exceptions raised by subscripting, iteration,
  comparison, \<^verbatim>\<open>assert\<close> and \<^verbatim>\<open>res.json()\<close>.
\<close>

datatype error =
    TGException string
  | KeyError
  | TypeError
  | AttributeError
  | AssertionError
  | JSONDecodeError

fun is_TGException :: "error \<Rightarrow> bool" where
  "is_TGException (TGException m) = True"
| "is_TGException e = False"

subsection \<open>Formatting\<close>

definition digit :: "nat \<Rightarrow> char" where
  "digit n = ''0123456789'' ! (n mod 10)"

fun show_nat :: "nat \<Rightarrow> string" where
  "show_nat n = (if n < 10 then [digit n] else show_nat (n div 10) @ [digit n])"

declare show_nat.simps [simp del]

definition show_int :: "int \<Rightarrow> string" where
  "show_int i = (if i < 0 then CHR ''-'' # show_nat (nat (- i)) else show_nat (nat i))"

text \<open>
  \<^verbatim>\<open>str(x)\<close>, as \<^verbatim>\<open>"{}".format(x)\<close> applies it. It is exact on strings, integers,
  booleans and \<^verbatim>\<open>None\<close>. Inside a list or dict Python prints \<^verbatim>\<open>repr\<close> of the elements;
  the quoting of a string element is rendered with plain single quotes, which is what
  Python prints when the string has no quote, backslash or control character.
\<close>

fun py_repr :: "json \<Rightarrow> string"
  and py_repr_list :: "json list \<Rightarrow> string"
  and py_repr_items :: "(string \<times> json) list \<Rightarrow> string" where
  "py_repr JNull = ''None''"
| "py_repr (JBool b) = (if b then ''True'' else ''False'')"
| "py_repr (JInt i) = show_int i"
| "py_repr (JStr s) = [CHR 0x27] @ s @ [CHR 0x27]"
| "py_repr (JList xs) = ''['' @ py_repr_list xs @ '']''"
| "py_repr (JObj kvs) = ''{'' @ py_repr_items kvs @ ''}''"
| "py_repr_list [] = []"
| "py_repr_list [x] = py_repr x"
| "py_repr_list (x # y # ys) = py_repr x @ '', '' @ py_repr_list (y # ys)"
| "py_repr_items [] = []"
| "py_repr_items [(k, v)] = py_repr (JStr k) @ '': '' @ py_repr v"
| "py_repr_items ((k, v) # kv # kvs) =
     py_repr (JStr k) @ '': '' @ py_repr v @ '', '' @ py_repr_items (kv # kvs)"

fun py_str :: "json \<Rightarrow> string" where
  "py_str (JStr s) = s"
| "py_str j = py_repr j"

subsection \<open>Subscripting, iteration and numbers\<close>

fun alist_get :: "('k \<times> 'v) list \<Rightarrow> 'k \<Rightarrow> 'v option" where
  "alist_get [] k = None"
| "alist_get ((k', v) # kvs) k = (if k' = k then Some v else alist_get kvs k)"

text \<open>\<^verbatim>\<open>d[k]\<close> with a string key: a missing key raises, and only a dict takes a string key.\<close>

fun subscript :: "json \<Rightarrow> string \<Rightarrow> error + json" where
  "subscript (JObj kvs) k = (case alist_get kvs k of None \<Rightarrow> Inl KeyError | Some v \<Rightarrow> Inr v)"
| "subscript j k = Inl TypeError"

text \<open>\<^verbatim>\<open>d.get(k, default)\<close>: only a dict has the method.\<close>

fun get_default :: "json \<Rightarrow> string \<Rightarrow> json \<Rightarrow> error + json" where
  "get_default (JObj kvs) k d = (case alist_get kvs k of None \<Rightarrow> Inr d | Some v \<Rightarrow> Inr v)"
| "get_default j k d = Inl AttributeError"

text \<open>
  \<^verbatim>\<open>for x in v\<close>: a list yields its elements, a dict its keys, a string its characters;
  nothing else is iterable.
\<close>

fun py_iter :: "json \<Rightarrow> error + json list" where
  "py_iter (JList xs) = Inr xs"
| "py_iter (JObj kvs) = Inr (map (\<lambda>kv. JStr (fst kv)) kvs)"
| "py_iter (JStr s) = Inr (map (\<lambda>c. JStr [c]) s)"
| "py_iter j = Inl TypeError"

text \<open>
  The operand of an ordering comparison with an \<^verbatim>\<open>int\<close>: an integer, or a boolean
  (Python's \<^verbatim>\<open>bool\<close> is a subclass of \<^verbatim>\<open>int\<close>); anything else raises \<^verbatim>\<open>TypeError\<close>.
\<close>

fun py_num :: "json \<Rightarrow> error + int" where
  "py_num (JInt i) = Inr i"
| "py_num (JBool b) = Inr (if b then 1 else 0)"
| "py_num j = Inl TypeError"

subsection \<open>The network, the log and the files\<close>

datatype verb = GET | POST

datatype request = Request (verb: verb) (url: string) (data: "(string \<times> json) list option")

text \<open>
  What \<^verbatim>\<open>requests\<close> hands back: the status code, the raw body, and what \<^verbatim>\<open>res.json()\<close>
  gives (\<open>None\<close> when the body is not JSON and decoding raises).
\<close>

datatype response = Response (status_code: int) (content: string) (json_body: "json option")

text \<open>
  The remote side answers a request knowing every request sent before it; \<open>None\<close>
  stands for \<^verbatim>\<open>requests.get\<close>/\<^verbatim>\<open>requests.post\<close> raising (no connection, DNS failure,
  timeout).
\<close>

type_synonym server = "request list \<Rightarrow> request \<Rightarrow> response option"

datatype level = DEBUG | INFO | WARNING | ERROR

record world =
  sent :: "request list"
  logged :: "(level \<times> string) list"
  files :: "(string \<times> string) list"

record env =
  server :: server
  hostname :: string

definition log_msg :: "level \<Rightarrow> string \<Rightarrow> world \<Rightarrow> world" where
  "log_msg l m w = w\<lparr>logged := logged w @ [(l, m)]\<rparr>"

definition perform :: "env \<Rightarrow> request \<Rightarrow> world \<Rightarrow> response option \<times> world" where
  "perform e r w = (server e (sent w) r, w\<lparr>sent := sent w @ [r]\<rparr>)"

definition res_json :: "response \<Rightarrow> error + json" where
  "res_json res = (case json_body res of None \<Rightarrow> Inl JSONDecodeError | Some j \<Rightarrow> Inr j)"

section \<open>The transport: \<^verbatim>\<open>checked_get_request\<close>, \<^verbatim>\<open>get\<close>, \<^verbatim>\<open>post\<close>\<close>

definition checked_get_request ::
  "env \<Rightarrow> string \<Rightarrow> (string \<times> json) list option \<Rightarrow> world \<Rightarrow> (error + response) \<times> world" where
  "checked_get_request e full_url dat w =
     (case perform e (Request GET full_url dat) w of
        (None, w') \<Rightarrow> (Inl (TGException ''Request failed critically (no internet?)''), w')
      | (Some res, w') \<Rightarrow>
          if status_code res \<noteq> 200
          then (Inl (TGException (''Request failed with status code '' @ show_int (status_code res))), w')
          else (Inr res, w'))"

section \<open>Python dicts\<close>

text \<open>
  A Python dict keeps its keys in insertion order, and assigning to a key that is present
  replaces the value where the key stands. A dict is modelled as the list of its items
  in that order. The keys of the registry are chat identifiers as they come out of JSON:
  strings when the registry was read from the config file, integers when they were
  taken from an update. Lists and dicts are unhashable and cannot be keys; \<^verbatim>\<open>True\<close> and
  \<^verbatim>\<open>1\<close> are the same key, as they are for Python.
\<close>

datatype pykey = KNone | KInt int | KStr string

fun hashable :: "json \<Rightarrow> error + pykey" where
  "hashable JNull = Inr KNone"
| "hashable (JBool b) = Inr (KInt (if b then 1 else 0))"
| "hashable (JInt i) = Inr (KInt i)"
| "hashable (JStr s) = Inr (KStr s)"
| "hashable (JList xs) = Inl TypeError"
| "hashable (JObj kvs) = Inl TypeError"

fun key_json :: "pykey \<Rightarrow> json" where
  "key_json KNone = JNull"
| "key_json (KInt i) = JInt i"
| "key_json (KStr s) = JStr s"

fun dict_setitem :: "('k \<times> 'v) list \<Rightarrow> 'k \<Rightarrow> 'v \<Rightarrow> ('k \<times> 'v) list" where
  "dict_setitem [] k v = [(k, v)]"
| "dict_setitem ((k', v') # kvs) k v =
     (if k' = k then (k', v) # kvs else (k', v') # dict_setitem kvs k v)"

text \<open>\<^verbatim>\<open>d.update(other)\<close>: every item of \<open>other\<close>, in its order, is assigned into \<open>d\<close>.\<close>

fun dict_update :: "('k \<times> 'v) list \<Rightarrow> ('k \<times> 'v) list \<Rightarrow> ('k \<times> 'v) list" where
  "dict_update d [] = d"
| "dict_update d ((k, v) # kvs) = dict_update (dict_setitem d k v) kvs"

definition keys :: "('k \<times> 'v) list \<Rightarrow> 'k set" where
  "keys d = fst ` set d"

section \<open>The notifier: class \<^verbatim>\<open>TGNotifier\<close>\<close>

record notifier =
  config_file_path :: string
  api_key :: string
  bot_url :: string
  last_update_id :: int
  registered_chats :: "(pykey \<times> string) list"

definition init :: "string \<Rightarrow> string \<Rightarrow> (pykey \<times> string) list \<Rightarrow> notifier" where
  "init key path chats =
     \<lparr>config_file_path = path, api_key = key,
      bot_url = ''https://api.telegram.org/bot'' @ key,
      last_update_id = 0, registered_chats = chats\<rparr>"

text \<open>
  Every method takes the object and the world and gives back its result (or the
  exception it raised), the object and the world as the call left them.
\<close>

definition get ::
  "env \<Rightarrow> string \<Rightarrow> (string \<times> json) list option \<Rightarrow> notifier \<Rightarrow> world
     \<Rightarrow> (error + json) \<times> notifier \<times> world" where
  "get e method dat self w =
     (case checked_get_request e (bot_url self @ ''/'' @ method) dat w of
        (Inl err, w') \<Rightarrow> (Inl err, self, w')
      | (Inr res, w') \<Rightarrow> (res_json res, self, w'))"

definition post ::
  "env \<Rightarrow> string \<Rightarrow> (string \<times> json) list option \<Rightarrow> notifier \<Rightarrow> world
     \<Rightarrow> (error + json) \<times> notifier \<times> world" where
  "post e method dat self w =
     (case perform e (Request POST (bot_url self @ ''/'' @ method) dat) w of
        (None, w') \<Rightarrow>
          (Inl (TGException ''Request failed critically (no internet?)''), self, w')
      | (Some res, w') \<Rightarrow>
          if status_code res \<noteq> 200
          then (Inl (TGException (''Request failed with status code ''
                   @ show_int (status_code res)
                   @ (if status_code res = 400 then '' (illformed message?)'' else []))),
                self, w')
          else (res_json res, self, w'))"

definition send_msg_payload :: "pykey \<Rightarrow> string \<Rightarrow> bool \<Rightarrow> (string \<times> json) list" where
  "send_msg_payload chat_id msg notify =
     [(''chat_id'', key_json chat_id),
      (''text'', JStr msg),
      (''parse_mode'', JStr ''markdown''),
      (''disable_notification'', JBool notify)]"

definition send_msg ::
  "env \<Rightarrow> pykey \<Rightarrow> string \<Rightarrow> bool \<Rightarrow> notifier \<Rightarrow> world
     \<Rightarrow> (error + unit) \<times> notifier \<times> world" where
  "send_msg e chat_id msg notify self w =
     (case post e ''sendMessage'' (Some (send_msg_payload chat_id msg notify)) self w of
        (Inl err, self', w') \<Rightarrow> (Inl err, self', w')
      | (Inr j, self', w') \<Rightarrow> (Inr (), self', w'))"

definition host_msg :: "string \<Rightarrow> string \<Rightarrow> string" where
  "host_msg msg host = msg @ [CHR 0x0A] @ ''_from_ '' @ [CHR 0x60] @ host @ [CHR 0x60]"

definition send_host_msg ::
  "env \<Rightarrow> pykey \<Rightarrow> string \<Rightarrow> bool \<Rightarrow> notifier \<Rightarrow> world
     \<Rightarrow> (error + unit) \<times> notifier \<times> world" where
  "send_host_msg e chat_id msg notify self w =
     send_msg e chat_id (host_msg msg (hostname e)) notify self w"

subsection \<open>\<^verbatim>\<open>broadcast\<close>\<close>

definition deliver ::
  "env \<Rightarrow> bool \<Rightarrow> pykey \<Rightarrow> string \<Rightarrow> bool \<Rightarrow> notifier \<Rightarrow> world
     \<Rightarrow> (error + unit) \<times> notifier \<times> world" where
  "deliver e with_host chat_id msg notify self w =
     (if with_host then send_host_msg e chat_id msg notify self w
      else send_msg e chat_id msg notify self w)"

text \<open>The three log messages of \<^verbatim>\<open>broadcast\<close>.\<close>

definition sending_msg :: "string \<Rightarrow> string" where
  "sending_msg name = ''Sending message to '' @ [CHR 0x27] @ name @ [CHR 0x27]"

definition failed_msg :: "string \<Rightarrow> string \<Rightarrow> string" where
  "failed_msg name reason =
     ''Failed to send message to '' @ name @ ''!'' @ [CHR 0x0A] @ ''Reason: '' @ reason"

definition done_msg :: "nat \<Rightarrow> nat \<Rightarrow> string" where
  "done_msg num_success num_failure =
     (if num_failure > 0
      then ''Done sending messages, '' @ show_nat num_success @ '' successful, ''
           @ show_nat num_failure @ '' failed.''
      else ''Done sending '' @ show_nat num_success @ '' message''
           @ (if num_success \<noteq> 1 then ''s'' else []) @ ''.'')"

text \<open>
  The \<^verbatim>\<open>for\<close> loop of \<^verbatim>\<open>broadcast\<close> over the items of the registry, with the two counters.
  Only \<open>TGException\<close> is caught; any other exception leaves the loop and the method.
\<close>

fun broadcast_loop ::
  "env \<Rightarrow> string \<Rightarrow> bool \<Rightarrow> bool \<Rightarrow> (pykey \<times> string) list \<Rightarrow> nat \<Rightarrow> nat
     \<Rightarrow> notifier \<Rightarrow> world \<Rightarrow> (error + nat \<times> nat) \<times> notifier \<times> world" where
  "broadcast_loop e msg with_host notify [] num_success num_failure self w =
     (Inr (num_success, num_failure), self, w)"
| "broadcast_loop e msg with_host notify ((chat_id, name) # items) num_success num_failure self w =
     (case deliver e with_host chat_id msg notify self (log_msg DEBUG (sending_msg name) w) of
        (Inl err, self', w') \<Rightarrow>
          (case err of
             TGException reason \<Rightarrow>
               broadcast_loop e msg with_host notify items num_success (num_failure + 1) self'
                 (log_msg ERROR (failed_msg name reason) w')
           | _ \<Rightarrow> (Inl err, self', w'))
      | (Inr u, self', w') \<Rightarrow>
          broadcast_loop e msg with_host notify items (num_success + 1) num_failure self' w')"

definition broadcast ::
  "env \<Rightarrow> string \<Rightarrow> bool \<Rightarrow> bool \<Rightarrow> notifier \<Rightarrow> world \<Rightarrow> (error + nat) \<times> notifier \<times> world" where
  "broadcast e msg with_host notify self w =
     (case broadcast_loop e msg with_host notify (registered_chats self) 0 0 self w of
        (Inl err, self', w') \<Rightarrow> (Inl err, self', w')
      | (Inr (num_success, num_failure), self', w') \<Rightarrow>
          (Inr num_failure, self', log_msg INFO (done_msg num_success num_failure) w'))"

text \<open>
  The last two lines of \<^verbatim>\<open>main\<close>: the message words are joined with newlines and
  broadcast with the host tag; \<^verbatim>\<open>--mute\<close> is passed on as \<^verbatim>\<open>notify=(not args.mute)\<close>.
\<close>

fun str_join :: "string \<Rightarrow> string list \<Rightarrow> string" where
  "str_join sep [] = []"
| "str_join sep [x] = x"
| "str_join sep (x # y # ys) = x @ sep @ str_join sep (y # ys)"

definition main_send ::
  "env \<Rightarrow> string list \<Rightarrow> bool \<Rightarrow> notifier \<Rightarrow> world \<Rightarrow> (error + nat) \<times> notifier \<times> world" where
  "main_send e msg_words mute self w =
     broadcast e (str_join [CHR 0x0A] msg_words) True (\<not> mute) self w"

subsection \<open>\<^verbatim>\<open>get_updates\<close>\<close>

text \<open>
  The loop of \<^verbatim>\<open>get_updates\<close>: \<^verbatim>\<open>new_last_update_id = max(new_last_update_id, upd['update_id'])\<close>
  for every update of the batch.
\<close>

fun get_updates_loop :: "int \<Rightarrow> json list \<Rightarrow> error + int" where
  "get_updates_loop new_last_update_id [] = Inr new_last_update_id"
| "get_updates_loop new_last_update_id (upd # upds) =
     (case subscript upd ''update_id'' of
        Inl err \<Rightarrow> Inl err
      | Inr j \<Rightarrow>
          (case py_num j of
             Inl err \<Rightarrow> Inl err
           | Inr curr_id \<Rightarrow> get_updates_loop (max new_last_update_id curr_id) upds))"

definition get_updates_payload :: "int \<Rightarrow> int \<Rightarrow> int \<Rightarrow> (string \<times> json) list" where
  "get_updates_payload offset limit timeout =
     [(''offset'', JInt offset),
      (''limit'', JInt limit),
      (''timeout'', JInt timeout),
      (''allowed_updates'', JList [JStr ''message''])]"

text \<open>
  The parameter \<^verbatim>\<open>allowed_updates\<close> of the source is never read and is left out. The
  cursor is assigned before the second request, so it keeps its new value when that
  request raises.
\<close>

definition get_updates ::
  "env \<Rightarrow> int \<Rightarrow> int \<Rightarrow> notifier \<Rightarrow> world \<Rightarrow> (error + json) \<times> notifier \<times> world" where
  "get_updates e limit timeout self w =
     (let payload = get_updates_payload (last_update_id self + 1) limit timeout in
      case get e ''getUpdates'' (Some payload) self w of
        (Inl err, self1, w1) \<Rightarrow> (Inl err, self1, w1)
      | (Inr dat, self1, w1) \<Rightarrow>
          (case subscript dat ''result'' of
             Inl err \<Rightarrow> (Inl err, self1, w1)
           | Inr results \<Rightarrow>
               (case py_iter results of
                  Inl err \<Rightarrow> (Inl err, self1, w1)
                | Inr upds \<Rightarrow>
                    (case get_updates_loop (last_update_id self1) upds of
                       Inl err \<Rightarrow> (Inl err, self1, w1)
                     | Inr new_last_update_id \<Rightarrow>
                         (let self2 = self1\<lparr>last_update_id := new_last_update_id\<rparr>;
                              payload2 = dict_setitem payload ''offset''
                                           (JInt (new_last_update_id + 1))
                          in case get e ''getUpdates'' (Some payload2) self2 w1 of
                               (Inl err, self3, w3) \<Rightarrow> (Inl err, self3, w3)
                             | (Inr ack, self3, w3) \<Rightarrow> (Inr results, self3, w3))))))"

subsection \<open>\<^verbatim>\<open>get_recent_chats\<close> and \<^verbatim>\<open>add_recent_chats\<close>\<close>

definition chat_name :: "json \<Rightarrow> error + string" where
  "chat_name chat =
     (case get_default chat ''first_name'' (JStr ''<no first name>'') of
        Inl err \<Rightarrow> Inl err
      | Inr first \<Rightarrow>
          (case get_default chat ''last_name'' (JStr ''<no last name>'') of
             Inl err \<Rightarrow> Inl err
           | Inr lst \<Rightarrow>
               (case get_default chat ''username'' (JStr ''<no username>'') of
                  Inl err \<Rightarrow> Inl err
                | Inr user \<Rightarrow>
                    Inr (py_str first @ '' '' @ py_str lst @ '' (@'' @ py_str user @ '')''))))"

text \<open>One pass of the loop body of \<^verbatim>\<open>get_recent_chats\<close>: the key and the name of one update.\<close>

definition chat_entry :: "json \<Rightarrow> error + pykey \<times> string" where
  "chat_entry upd =
     (case subscript upd ''message'' of
        Inl err \<Rightarrow> Inl err
      | Inr msg \<Rightarrow>
          (case subscript msg ''chat'' of
             Inl err \<Rightarrow> Inl err
           | Inr chat \<Rightarrow>
               (case subscript chat ''id'' of
                  Inl err \<Rightarrow> Inl err
                | Inr chat_id \<Rightarrow>
                    (case chat_name chat of
                       Inl err \<Rightarrow> Inl err
                     | Inr name \<Rightarrow>
                         (case hashable chat_id of
                            Inl err \<Rightarrow> Inl err
                          | Inr k \<Rightarrow> Inr (k, name))))))"

fun get_recent_chats_loop ::
  "(pykey \<times> string) list \<Rightarrow> json list \<Rightarrow> error + (pykey \<times> string) list" where
  "get_recent_chats_loop recent_chats [] = Inr recent_chats"
| "get_recent_chats_loop recent_chats (upd # upds) =
     (case chat_entry upd of
        Inl err \<Rightarrow> Inl err
      | Inr (k, name) \<Rightarrow> get_recent_chats_loop (dict_setitem recent_chats k name) upds)"

definition get_recent_chats ::
  "env \<Rightarrow> notifier \<Rightarrow> world \<Rightarrow> (error + (pykey \<times> string) list) \<times> notifier \<times> world" where
  "get_recent_chats e self w =
     (case get_updates e 100 0 self w of
        (Inl err, self', w') \<Rightarrow> (Inl err, self', w')
      | (Inr updates, self', w') \<Rightarrow>
          (case py_iter updates of
             Inl err \<Rightarrow> (Inl err, self', w')
           | Inr upds \<Rightarrow> (get_recent_chats_loop [] upds, self', w')))"

definition add_recent_chats ::
  "env \<Rightarrow> notifier \<Rightarrow> world \<Rightarrow> (error + (pykey \<times> string) list) \<times> notifier \<times> world" where
  "add_recent_chats e self w =
     (case get_recent_chats e self w of
        (Inl err, self', w') \<Rightarrow> (Inl err, self', w')
      | (Inr new_chats, self', w') \<Rightarrow>
          (Inr new_chats,
           self'\<lparr>registered_chats := dict_update (registered_chats self') new_chats\<rparr>,
           w'))"

subsection \<open>\<^verbatim>\<open>download_photo_from_msg\<close>\<close>

text \<open>
  The selection loop: \<open>file_id\<close>, \<open>width\<close> and \<open>height\<close> start as \<^verbatim>\<open>None\<close>, \<open>-1\<close> and \<open>-1\<close>,
  and a variant replaces them when its width is strictly greater than \<open>width\<close>.
\<close>

fun download_photo_loop ::
  "json \<times> int \<times> json \<Rightarrow> json list \<Rightarrow> error + json \<times> int \<times> json" where
  "download_photo_loop (file_id, width, height) [] = Inr (file_id, width, height)"
| "download_photo_loop (file_id, width, height) (ps # pss) =
     (case subscript ps ''width'' of
        Inl err \<Rightarrow> Inl err
      | Inr wj \<Rightarrow>
          (case py_num wj of
             Inl err \<Rightarrow> Inl err
           | Inr pw \<Rightarrow>
               if pw > width
               then (case subscript ps ''file_id'' of
                       Inl err \<Rightarrow> Inl err
                     | Inr fid \<Rightarrow>
                         (case subscript ps ''height'' of
                            Inl err \<Rightarrow> Inl err
                          | Inr h \<Rightarrow> download_photo_loop (fid, pw, h) pss))
               else download_photo_loop (file_id, width, height) pss))"

text \<open>\<^verbatim>\<open>str.rfind\<close> for one character, and \<^verbatim>\<open>os.path.splitext\<close> on a POSIX system.\<close>

fun rfind :: "string \<Rightarrow> char \<Rightarrow> int" where
  "rfind [] c = -1"
| "rfind (x # xs) c =
     (let r = rfind xs c in if r \<ge> 0 then r + 1 else if x = c then 0 else -1)"

definition splitext :: "string \<Rightarrow> string \<times> string" where
  "splitext p =
     (let sepIndex = rfind p CHR ''/'';
          dotIndex = rfind p CHR ''.''
      in if dotIndex > sepIndex
            \<and> list_ex (\<lambda>c. c \<noteq> CHR ''.'')
                 (take (nat (dotIndex - (sepIndex + 1))) (drop (nat (sepIndex + 1)) p))
         then (take (nat dotIndex) p, drop (nat dotIndex) p)
         else (p, []))"

fun as_str :: "json \<Rightarrow> error + string" where
  "as_str (JStr s) = Inr s"
| "as_str j = Inl TypeError"

text \<open>
  The download address \<^verbatim>\<open>"https://api.telegram.org/file/bot{token}/{file_path}"\<close>. Writing
  the downloaded bytes is recorded in \<open>files\<close>; opening the output file is taken to
  succeed.
\<close>

definition file_url :: "string \<Rightarrow> string \<Rightarrow> string" where
  "file_url token file_path = ''https://api.telegram.org/file/bot'' @ token @ ''/'' @ file_path"

definition download_photo_from_msg ::
  "env \<Rightarrow> json \<Rightarrow> string \<Rightarrow> notifier \<Rightarrow> world \<Rightarrow> (error + string) \<times> notifier \<times> world" where
  "download_photo_from_msg e msg path self w =
     (case get_default msg ''photo'' JNull of
        Inl err \<Rightarrow> (Inl err, self, w)
      | Inr photo_sizes \<Rightarrow>
          if photo_sizes = JNull then (Inl AssertionError, self, w)
          else
            (case py_iter photo_sizes of
               Inl err \<Rightarrow> (Inl err, self, w)
             | Inr pss \<Rightarrow>
                 (case download_photo_loop (JNull, -1, JInt (-1)) pss of
                    Inl err \<Rightarrow> (Inl err, self, w)
                  | Inr (file_id, width, height) \<Rightarrow>
                      (case get e ''getFile'' (Some [(''file_id'', file_id)]) self w of
                         (Inl err, self1, w1) \<Rightarrow> (Inl err, self1, w1)
                       | (Inr dat, self1, w1) \<Rightarrow>
                           (case subscript dat ''result'' of
                              Inl err \<Rightarrow> (Inl err, self1, w1)
                            | Inr file_obj \<Rightarrow>
                                (case subscript file_obj ''file_path'' of
                                   Inl err \<Rightarrow> (Inl err, self1, w1)
                                 | Inr fp \<Rightarrow>
                                     (case as_str fp of
                                        Inl err \<Rightarrow> (Inl err, self1, w1)
                                      | Inr file_path \<Rightarrow>
                                          (let ext = snd (splitext file_path);
                                               dl_url = file_url (api_key self1) file_path
                                           in case checked_get_request e dl_url None w1 of
                                                (Inl err, w2) \<Rightarrow> (Inl err, self1, w2)
                                              | (Inr r, w2) \<Rightarrow>
                                                  (let full_path = path @ ext
                                                   in (Inr full_path, self1,
                                                       w2\<lparr>files := files w2
                                                            @ [(full_path, content r)]\<rparr>))))))))))"

section \<open>Locating the config file: \<^verbatim>\<open>get_config_file_path\<close>\<close>

text \<open>
  What the function reads from its surroundings: the directory of the script, the
  directory \<^verbatim>\<open>BaseDirectory.save_config_path("tgnotipy")\<close> gives (\<open>None\<close> when the \<^verbatim>\<open>xdg\<close>
  module cannot be imported), and \<^verbatim>\<open>os.path.isfile\<close>.
\<close>

record fs_env =
  script_path :: string
  xdg_path :: "string option"
  isfile :: "string \<Rightarrow> bool"

text \<open>\<^verbatim>\<open>os.path.join(a, b)\<close> on a POSIX system, for two components.\<close>

definition path_join :: "string \<Rightarrow> string \<Rightarrow> string" where
  "path_join a b =
     (if b \<noteq> [] \<and> hd b = CHR ''/'' then b
      else if a = [] \<or> last a = CHR ''/'' then a @ b
      else a @ ''/'' @ b)"

definition two_configs_warning :: "string \<Rightarrow> string \<Rightarrow> string" where
  "two_configs_warning xdg script =
     ''Found two config files:'' @ [CHR 0x0A] @ ''  '' @ xdg @ [CHR 0x0A] @ ''and''
     @ [CHR 0x0A] @ ''  '' @ script @ [CHR 0x0A]
     @ ''The latter is used. Delete it or explicitly specify the config to use the other one.''"

definition get_config_file_path :: "fs_env \<Rightarrow> string option \<Rightarrow> world \<Rightarrow> string \<times> world" where
  "get_config_file_path fs given_path w =
     (case given_path of
        Some p \<Rightarrow> (p, w)
      | None \<Rightarrow>
          (let config_file_name = ''config.json'';
               config_at_script_path = path_join (script_path fs) config_file_name;
               is_config_at_script = isfile fs config_at_script_path;
               config_at_xdg_path =
                 (case xdg_path fs of
                    None \<Rightarrow> None
                  | Some xdg \<Rightarrow> Some (path_join xdg config_file_name));
               is_config_at_xdg =
                 (case config_at_xdg_path of None \<Rightarrow> False | Some p \<Rightarrow> isfile fs p)
           in if is_config_at_xdg \<and> is_config_at_script
              then (config_at_script_path,
                    log_msg WARNING
                      (two_configs_warning (the config_at_xdg_path) config_at_script_path) w)
              else if is_config_at_script then (config_at_script_path, w)
              else if is_config_at_xdg then (the config_at_xdg_path, w)
              else (case config_at_xdg_path of
                      Some p \<Rightarrow> (p, w)
                    | None \<Rightarrow> (config_at_script_path, w))))"

section \<open>Notions the properties are stated with\<close>

text \<open>
  A request has failed when \<^verbatim>\<open>requests\<close> raised or the status code is not 200: the two
  conditions under which the transport raises \<open>TGException\<close>.
\<close>

definition request_failed :: "response option \<Rightarrow> bool" where
  "request_failed r = (case r of None \<Rightarrow> True | Some res \<Rightarrow> status_code res \<noteq> 200)"

definition raises_TGException :: "error + 'a \<Rightarrow> bool" where
  "raises_TGException r = (case r of Inl err \<Rightarrow> is_TGException err | Inr x \<Rightarrow> False)"

text \<open>Worlds, servers and notifiers for concrete runs.\<close>

definition fresh :: world where
  "fresh = \<lparr>sent = [], logged = [], files = []\<rparr>"

definition always :: "response option \<Rightarrow> string \<Rightarrow> env" where
  "always r host = \<lparr>server = (\<lambda>h q. r), hostname = host\<rparr>"

definition tgn :: "(pykey \<times> string) list \<Rightarrow> notifier" where
  "tgn chats = init ''TOKEN'' ''config.json'' chats"

text \<open>The two candidate paths of \<^verbatim>\<open>get_config_file_path\<close> and whether a file is there.\<close>

definition config_at_script :: "fs_env \<Rightarrow> string" where
  "config_at_script fs = path_join (script_path fs) ''config.json''"

definition config_at_xdg :: "fs_env \<Rightarrow> string option" where
  "config_at_xdg fs = map_option (\<lambda>d. path_join d ''config.json'') (xdg_path fs)"

definition script_exists :: "fs_env \<Rightarrow> bool" where
  "script_exists fs = isfile fs (config_at_script fs)"

definition xdg_exists :: "fs_env \<Rightarrow> bool" where
  "xdg_exists fs = (case config_at_xdg fs of None \<Rightarrow> False | Some p \<Rightarrow> isfile fs p)"

definition disk :: "string option \<Rightarrow> string list \<Rightarrow> fs_env" where
  "disk xdg present =
     \<lparr>script_path = ''/opt/tgnotipy'', xdg_path = xdg, isfile = (\<lambda>p. p \<in> set present)\<rparr>"

text \<open>
  The request \<^verbatim>\<open>broadcast\<close> sends for one recipient, the list of them for the whole
  registry, and what the server answers to a list of requests sent one after the other.
\<close>

definition delivery_request :: "env \<Rightarrow> notifier \<Rightarrow> string \<Rightarrow> bool \<Rightarrow> bool \<Rightarrow> pykey \<Rightarrow> request" where
  "delivery_request e self msg with_host notify chat_id =
     Request POST (bot_url self @ ''/sendMessage'')
       (Some (send_msg_payload chat_id
                (if with_host then host_msg msg (hostname e) else msg) notify))"

definition deliveries :: "env \<Rightarrow> notifier \<Rightarrow> string \<Rightarrow> bool \<Rightarrow> bool \<Rightarrow> request list" where
  "deliveries e self msg with_host notify =
     map (\<lambda>item. delivery_request e self msg with_host notify (fst item)) (registered_chats self)"

fun answers :: "server \<Rightarrow> request list \<Rightarrow> request list \<Rightarrow> response option list" where
  "answers srv hist [] = []"
| "answers srv hist (r # rs) = srv hist r # answers srv (hist @ [r]) rs"

text \<open>
  A delivery that either raises \<open>TGException\<close> or succeeds: the answer is not a status
  200 whose body fails to decode (that raises from \<^verbatim>\<open>res.json()\<close>, which \<^verbatim>\<open>broadcast\<close>
  does not catch).
\<close>

definition delivered_or_failed :: "response option \<Rightarrow> bool" where
  "delivered_or_failed a =
     (case a of None \<Rightarrow> True | Some res \<Rightarrow> status_code res \<noteq> 200 \<or> json_body res \<noteq> None)"

definition failures :: "response option list \<Rightarrow> nat" where
  "failures as = length (filter request_failed as)"

text \<open>A server that answers 400 to every message for chat \<^verbatim>\<open>"2"\<close> and 200 to the rest.\<close>

definition chat_2_fails :: env where
  "chat_2_fails =
     \<lparr>server = (\<lambda>h q. if map_option (\<lambda>d. alist_get d ''chat_id'') (data q) = Some (Some (JStr ''2''))
                        then Some (Response 400 [] None)
                        else Some (Response 200 [] (Some (JObj [(''ok'', JBool True)])))),
      hostname = ''host''\<rparr>"

text \<open>
  The \<^verbatim>\<open>getUpdates\<close> request with a given offset; the batch a first answer carries (the
  value under \<^verbatim>\<open>"result"\<close> and the updates it iterates to) when the request succeeds
  with a decodable body; the update identifiers of a batch whose updates all have an
  integer \<^verbatim>\<open>update_id\<close>; and an answer that is a status 200 with a decodable body.
\<close>

definition pull_request :: "notifier \<Rightarrow> int \<Rightarrow> int \<Rightarrow> int \<Rightarrow> request" where
  "pull_request self offset limit timeout =
     Request GET (bot_url self @ ''/getUpdates'') (Some (get_updates_payload offset limit timeout))"

definition batch_of :: "response option \<Rightarrow> (json \<times> json list) option" where
  "batch_of a =
     (case a of
        None \<Rightarrow> None
      | Some res \<Rightarrow>
          if status_code res \<noteq> 200 then None
          else (case json_body res of
                  None \<Rightarrow> None
                | Some dat \<Rightarrow>
                    (case subscript dat ''result'' of
                       Inl err \<Rightarrow> None
                     | Inr results \<Rightarrow>
                         (case py_iter results of
                            Inl err \<Rightarrow> None
                          | Inr upds \<Rightarrow> Some (results, upds)))))"

fun update_ids :: "json list \<Rightarrow> int list option" where
  "update_ids [] = Some []"
| "update_ids (upd # upds) =
     (case subscript upd ''update_id'' of
        Inl err \<Rightarrow> None
      | Inr j \<Rightarrow>
          (case py_num j of
             Inl err \<Rightarrow> None
           | Inr i \<Rightarrow> map_option ((#) i) (update_ids upds)))"

definition answered_json :: "response option \<Rightarrow> bool" where
  "answered_json a =
     (case a of None \<Rightarrow> False | Some res \<Rightarrow> status_code res = 200 \<and> json_body res \<noteq> None)"

text \<open>An update as the bot API sends it, and a server that answers every request with a batch.\<close>

definition update_from :: "int \<Rightarrow> int \<Rightarrow> (string \<times> json) list \<Rightarrow> json" where
  "update_from uid chat_id who =
     JObj [(''update_id'', JInt uid),
           (''message'', JObj [(''message_id'', JInt 1),
                               (''chat'', JObj ((''id'', JInt chat_id) # who)),
                               (''text'', JStr ''/start'')])]"

definition batch_server :: "json list \<Rightarrow> env" where
  "batch_server upds =
     always (Some (Response 200 [] (Some (JObj [(''ok'', JBool True), (''result'', JList upds)]))))
       ''host''"

text \<open>Two updates from the same chat, the later one with another name.\<close>

definition renamed_chat :: "json list" where
  "renamed_chat =
     [update_from 41 7 [(''first_name'', JStr ''Ann'')],
      update_from 42 7 [(''first_name'', JStr ''Anna''), (''last_name'', JStr ''B''),
                        (''username'', JStr ''annb'')]]"

text \<open>
  The photo sizes of a message, read as (file id, width, height), when every one of them
  has the three fields and a numeric width; the choice the selection loop makes between
  the variant it holds and the next one; and the \<^verbatim>\<open>getFile\<close> request for a file id.
\<close>

fun variants :: "json list \<Rightarrow> (json \<times> int \<times> json) list option" where
  "variants [] = Some []"
| "variants (ps # pss) =
     (case subscript ps ''width'' of
        Inl err \<Rightarrow> None
      | Inr wj \<Rightarrow>
          (case py_num wj of
             Inl err \<Rightarrow> None
           | Inr pw \<Rightarrow>
               (case subscript ps ''file_id'' of
                  Inl err \<Rightarrow> None
                | Inr fid \<Rightarrow>
                    (case subscript ps ''height'' of
                       Inl err \<Rightarrow> None
                     | Inr h \<Rightarrow> map_option ((#) (fid, pw, h)) (variants pss)))))"

definition select_wider :: "json \<times> int \<times> json \<Rightarrow> json \<times> int \<times> json \<Rightarrow> json \<times> int \<times> json" where
  "select_wider held v = (if fst (snd v) > fst (snd held) then v else held)"

definition get_file_request :: "notifier \<Rightarrow> json \<Rightarrow> request" where
  "get_file_request self file_id =
     Request GET (bot_url self @ ''/getFile'') (Some [(''file_id'', file_id)])"

text \<open>A photo size and a message with photos as the bot API sends them, and a file server.\<close>

definition photo_size :: "string \<Rightarrow> int \<Rightarrow> int \<Rightarrow> json" where
  "photo_size fid pw h = JObj [(''file_id'', JStr fid), (''width'', JInt pw), (''height'', JInt h)]"

definition photo_msg :: "json list \<Rightarrow> json" where
  "photo_msg pss = JObj [(''message_id'', JInt 1), (''photo'', JList pss)]"

definition file_server :: env where
  "file_server =
     always (Some (Response 200 ''JPEG''
                     (Some (JObj [(''ok'', JBool True),
                                  (''result'', JObj [(''file_path'', JStr ''photos/file_1.jpg'')])]))))
       ''host''"

text \<open>A server that answers the first request it sees with a batch and no request after it.\<close>

definition ack_fails :: "json list \<Rightarrow> env" where
  "ack_fails upds =
     \<lparr>server = (\<lambda>h q. if h = []
                        then Some (Response 200 []
                                     (Some (JObj [(''ok'', JBool True), (''result'', JList upds)])))
                        else None),
      hostname = ''host''\<rparr>"

text \<open>
  The registry \<^verbatim>\<open>create\<close> hands to the notifier when the config file holds an object of
  names under \<^verbatim>\<open>"registered_chats"\<close>: \<^verbatim>\<open>json.load\<close> gives a dict whose keys are the
  strings of the JSON object.
\<close>

definition registry_from_config :: "(string \<times> string) list \<Rightarrow> (pykey \<times> string) list" where
  "registry_from_config chats = map (\<lambda>item. (KStr (fst item), snd item)) chats"

section \<open>Properties\<close>

subsection \<open>Dict lemmas\<close>

lemma alist_get_setitem:
  "alist_get (dict_setitem d k v) k' = (if k' = k then Some v else alist_get d k')"
  by (induction d) auto

lemma map_fst_setitem:
  "map fst (dict_setitem d k v) = (if k \<in> set (map fst d) then map fst d else map fst d @ [k])"
proof (induction d)
  case Nil
  then show ?case by simp
next
  case (Cons a d)
  obtain k0 v0 where a: "a = (k0, v0)" by (cases a)
  show ?case using Cons.IH by (cases "k0 = k") (simp_all add: a)
qed

lemma keys_conv: "keys d = set (map fst d)"
  by (simp add: keys_def)

lemma keys_setitem: "keys (dict_setitem d k v) = insert k (keys d)"
  unfolding keys_conv map_fst_setitem by auto

lemma keys_update: "keys (dict_update d new) = keys d \<union> keys new"
proof (induction new arbitrary: d)
  case Nil
  then show ?case by (simp add: keys_def)
next
  case (Cons kv new)
  obtain k v where kv: "kv = (k, v)" by (cases kv)
  have "keys (kv # new) = insert k (keys new)" by (simp add: kv keys_def)
  then show ?case using Cons[of "dict_setitem d k v"] by (simp add: kv keys_setitem)
qed

lemma setitem_twice: "dict_setitem (dict_setitem d k v) k v' = dict_setitem d k v'"
  by (induction d) auto

text \<open>
  Two assignments to different keys commute as soon as one of the keys is present: only
  two new keys would be appended in the order of the assignments.
\<close>

lemma setitem_swap:
  "k \<noteq> k' \<Longrightarrow> k \<in> keys d \<Longrightarrow>
     dict_setitem (dict_setitem d k v) k' v' = dict_setitem (dict_setitem d k' v') k v"
proof (induction d)
  case Nil
  then show ?case by (simp add: keys_def)
next
  case (Cons a d)
  obtain k0 v0 where a: "a = (k0, v0)" by (cases a)
  show ?case
  proof (cases "k0 = k \<or> k0 = k'")
    case True
    then show ?thesis using Cons.prems(1) by (auto simp: a)
  next
    case False
    then have "k \<in> keys d" using Cons.prems(2) by (auto simp: a keys_def)
    then show ?thesis using Cons.IH Cons.prems(1) False by (simp add: a)
  qed
qed

lemma update_snoc: "dict_update d (new @ [(k, v)]) = dict_setitem (dict_update d new) k v"
  by (induction new arbitrary: d) auto

text \<open>
  When every key of \<open>new\<close> is present, an assignment made before the update is
  forgotten once the same key is assigned after it.
\<close>

lemma setitem_absorb:
  "keys new \<subseteq> keys d \<Longrightarrow>
     dict_setitem (dict_update (dict_setitem d k v) new) k v = dict_setitem (dict_update d new) k v"
proof (induction new arbitrary: d)
  case Nil
  then show ?case by (simp add: setitem_twice)
next
  case (Cons a new)
  obtain k' v' where a: "a = (k', v')" by (cases a)
  from Cons.prems have k'in: "k' \<in> keys d" and sub: "keys new \<subseteq> keys d"
    by (auto simp: a keys_def)
  show ?case
  proof (cases "k' = k")
    case True
    then show ?thesis by (simp add: a setitem_twice)
  next
    case False
    have "dict_setitem (dict_setitem d k v) k' v' = dict_setitem (dict_setitem d k' v') k v"
      using setitem_swap[OF False k'in, of v' v] by simp
    moreover have "keys new \<subseteq> keys (dict_setitem d k' v')"
      using sub by (auto simp: keys_setitem)
    ultimately show ?thesis
      using Cons.IH[of "dict_setitem d k' v'"] by (simp add: a)
  qed
qed

subsection \<open>Merging twice\<close>

text \<open>
  Assigning the same entries a second time changes nothing: the same keys in the same
  order with the same names.
\<close>

lemma dict_update_idem:
  "dict_update (dict_update d new) new = dict_update d new"
proof (induction new rule: rev_induct)
  case Nil
  then show ?case by simp
next
  case (snoc a new)
  obtain k v where a: "a = (k, v)" by (cases a)
  let ?D = "dict_update d new"
  have "dict_update (dict_update d (new @ [a])) (new @ [a])
        = dict_setitem (dict_update (dict_setitem ?D k v) new) k v"
    by (simp add: a update_snoc)
  also have "\<dots> = dict_setitem (dict_update ?D new) k v"
    by (rule setitem_absorb) (simp add: keys_update)
  also have "\<dots> = dict_setitem ?D k v"
    by (simp add: snoc.IH)
  finally show ?case by (simp add: a update_snoc)
qed

subsection \<open>The transport\<close>

lemma checked_raises:
  "raises_TGException (fst (checked_get_request e u dat w))
     = request_failed (server e (sent w) (Request GET u dat))"
  by (auto simp: checked_get_request_def perform_def raises_TGException_def
        request_failed_def split: option.splits)

lemma get_raises:
  "raises_TGException (fst (get e method dat self w))
     = request_failed (server e (sent w) (Request GET (bot_url self @ ''/'' @ method) dat))"
  by (auto simp: get_def checked_get_request_def perform_def raises_TGException_def
        request_failed_def res_json_def split: option.splits)

lemma post_raises:
  "raises_TGException (fst (post e method dat self w))
     = request_failed (server e (sent w) (Request POST (bot_url self @ ''/'' @ method) dat))"
  by (auto simp: post_def perform_def raises_TGException_def request_failed_def res_json_def
      split: option.splits)

lemma show_int_400: "show_int 400 = ''400''"
  by (simp add: show_int_def show_nat.simps digit_def)

text \<open>
  Claim C7, as amended. A transport request raises \<open>TGException\<close> exactly when
  \<^verbatim>\<open>requests\<close> raised or the status code is not 200 (the source tests
  \<^verbatim>\<open>res.status_code != 200\<close>, so 201 or 204 raise as well). The message of a status
  failure carries the status code; \<^verbatim>\<open>post\<close> appends the hint for status 400, and
  the message of \<^verbatim>\<open>get\<close> never has it.
\<close>

theorem transport_raises_unless_200:
  "raises_TGException (fst (checked_get_request e u dat w))
     = request_failed (server e (sent w) (Request GET u dat))
   \<and> raises_TGException (fst (get e method dat self w))
     = request_failed (server e (sent w) (Request GET (bot_url self @ ''/'' @ method) dat))
   \<and> raises_TGException (fst (post e method dat self w))
     = request_failed (server e (sent w) (Request POST (bot_url self @ ''/'' @ method) dat))
   \<and> (\<forall>res. server e (sent w) (Request GET (bot_url self @ ''/'' @ method) dat) = Some res
            \<and> status_code res \<noteq> 200
        \<longrightarrow> fst (get e method dat self w)
            = Inl (TGException (''Request failed with status code '' @ show_int (status_code res))))
   \<and> (\<forall>res. server e (sent w) (Request POST (bot_url self @ ''/'' @ method) dat) = Some res
            \<and> status_code res \<noteq> 200
        \<longrightarrow> fst (post e method dat self w)
            = Inl (TGException (''Request failed with status code '' @ show_int (status_code res)
                     @ (if status_code res = 400 then '' (illformed message?)'' else []))))"
proof -
  have g: "\<forall>res. server e (sent w) (Request GET (bot_url self @ ''/'' @ method) dat) = Some res
            \<and> status_code res \<noteq> 200
        \<longrightarrow> fst (get e method dat self w)
            = Inl (TGException (''Request failed with status code '' @ show_int (status_code res)))"
    by (simp add: get_def checked_get_request_def perform_def)
  have p: "\<forall>res. server e (sent w) (Request POST (bot_url self @ ''/'' @ method) dat) = Some res
            \<and> status_code res \<noteq> 200
        \<longrightarrow> fst (post e method dat self w)
            = Inl (TGException (''Request failed with status code '' @ show_int (status_code res)
                     @ (if status_code res = 400 then '' (illformed message?)'' else [])))"
    by (simp add: post_def perform_def)
  show ?thesis using checked_raises get_raises post_raises g p by blast
qed

theorem transport_raises_unless_200_witness:
  "fst (get (always (Some (Response 400 [] None)) ''host'') ''getUpdates'' None (tgn []) fresh)
     = Inl (TGException ''Request failed with status code 400'')
   \<and> fst (post (always (Some (Response 400 [] None)) ''host'') ''sendMessage'' None (tgn []) fresh)
     = Inl (TGException ''Request failed with status code 400 (illformed message?)'')
   \<and> raises_TGException
       (fst (post (always None ''host'') ''sendMessage'' None (tgn []) fresh))
   \<and> \<not> raises_TGException
       (fst (post (always (Some (Response 200 [] None)) ''host'') ''sendMessage'' None (tgn []) fresh))"
  using transport_raises_unless_200
          [of "always (Some (Response 400 [] None)) ''host''" "[]" None fresh "''getUpdates''" "tgn []"]
        transport_raises_unless_200
          [of "always (Some (Response 400 [] None)) ''host''" "[]" None fresh "''sendMessage''" "tgn []"]
        transport_raises_unless_200
          [of "always None ''host''" "[]" None fresh "''sendMessage''" "tgn []"]
        transport_raises_unless_200
          [of "always (Some (Response 200 [] None)) ''host''" "[]" None fresh "''sendMessage''" "tgn []"]
  by (simp add: always_def request_failed_def show_int_400)

text \<open>
  Claim C7 as it is stated fails at status 201: the status is 2xx and nothing went wrong
  in the transport, yet the request raises.
\<close>

theorem status_201_counterexample:
  "200 \<le> status_code (Response 201 [] (Some JNull)) \<and> status_code (Response 201 [] (Some JNull)) < 300
   \<and> fst (get (always (Some (Response 201 [] (Some JNull))) ''host'') ''getUpdates'' None (tgn []) fresh)
       = Inl (TGException ''Request failed with status code 201'')"
  by (simp add: get_def checked_get_request_def perform_def always_def fresh_def
        show_int_def show_nat.simps digit_def)

subsection \<open>Locating the config file\<close>

text \<open>
  Claim C5. An explicit path is returned as it is, whatever files exist. Without one:
  the path next to the script, with a warning, when both files exist; the existing one
  when exactly one exists; the \<^verbatim>\<open>xdg\<close> path when neither exists and the \<^verbatim>\<open>xdg\<close> module is
  available; the path next to the script otherwise.
\<close>

theorem resolve_table:
  "get_config_file_path fs (Some p) w = (p, w)
   \<and> (script_exists fs \<and> xdg_exists fs \<longrightarrow>
        get_config_file_path fs None w
          = (config_at_script fs,
             log_msg WARNING
               (two_configs_warning (the (config_at_xdg fs)) (config_at_script fs)) w))
   \<and> (script_exists fs \<and> \<not> xdg_exists fs \<longrightarrow>
        get_config_file_path fs None w = (config_at_script fs, w))
   \<and> (\<not> script_exists fs \<and> xdg_exists fs \<longrightarrow>
        get_config_file_path fs None w = (the (config_at_xdg fs), w))
   \<and> (\<not> script_exists fs \<and> \<not> xdg_exists fs \<and> xdg_path fs \<noteq> None \<longrightarrow>
        get_config_file_path fs None w = (the (config_at_xdg fs), w))
   \<and> (\<not> script_exists fs \<and> \<not> xdg_exists fs \<and> xdg_path fs = None \<longrightarrow>
        get_config_file_path fs None w = (config_at_script fs, w))"
  by (auto simp: get_config_file_path_def script_exists_def xdg_exists_def config_at_script_def
        config_at_xdg_def Let_def split: option.splits)

theorem resolve_table_witness:
  "get_config_file_path (disk None []) (Some ''elsewhere/my.json'') fresh
     = (''elsewhere/my.json'', fresh)
   \<and> fst (get_config_file_path
          (disk (Some ''/home/u/.config/tgnotipy'')
             [''/opt/tgnotipy/config.json'', ''/home/u/.config/tgnotipy/config.json''])
          None fresh) = ''/opt/tgnotipy/config.json''
   \<and> map fst (logged (snd (get_config_file_path
          (disk (Some ''/home/u/.config/tgnotipy'')
             [''/opt/tgnotipy/config.json'', ''/home/u/.config/tgnotipy/config.json''])
          None fresh))) = [WARNING]
   \<and> get_config_file_path
          (disk (Some ''/home/u/.config/tgnotipy'') [''/opt/tgnotipy/config.json''])
          None fresh = (''/opt/tgnotipy/config.json'', fresh)
   \<and> get_config_file_path
          (disk (Some ''/home/u/.config/tgnotipy'') [''/home/u/.config/tgnotipy/config.json''])
          None fresh = (''/home/u/.config/tgnotipy/config.json'', fresh)
   \<and> get_config_file_path (disk (Some ''/home/u/.config/tgnotipy'') []) None fresh
        = (''/home/u/.config/tgnotipy/config.json'', fresh)
   \<and> get_config_file_path (disk None []) None fresh = (''/opt/tgnotipy/config.json'', fresh)"
  using resolve_table [of "disk None []" "''elsewhere/my.json''" fresh]
        resolve_table
          [of "disk (Some ''/home/u/.config/tgnotipy'')
                 [''/opt/tgnotipy/config.json'', ''/home/u/.config/tgnotipy/config.json'']"
              "[]" fresh]
        resolve_table
          [of "disk (Some ''/home/u/.config/tgnotipy'') [''/opt/tgnotipy/config.json'']" "[]" fresh]
        resolve_table
          [of "disk (Some ''/home/u/.config/tgnotipy'') [''/home/u/.config/tgnotipy/config.json'']"
              "[]" fresh]
        resolve_table [of "disk (Some ''/home/u/.config/tgnotipy'') []" "[]" fresh]
  by (simp add: disk_def script_exists_def xdg_exists_def config_at_script_def config_at_xdg_def
        path_join_def log_msg_def fresh_def)

subsection \<open>Broadcasting\<close>

lemma sent_log_msg [simp]: "sent (log_msg l m w) = sent w"
  by (simp add: log_msg_def)

lemma files_log_msg [simp]: "files (log_msg l m w) = files w"
  by (simp add: log_msg_def)

lemma logged_log_msg [simp]: "logged (log_msg l m w) = logged w @ [(l, m)]"
  by (simp add: log_msg_def)

lemma deliver_self: "fst (snd (deliver e with_host chat_id msg notify self w)) = self"
  by (simp add: deliver_def send_host_msg_def send_msg_def post_def perform_def
        split: option.splits sum.splits prod.splits)

lemma broadcast_loop_self:
  "fst (snd (broadcast_loop e msg with_host notify items ns nf self w)) = self"
proof (induction items arbitrary: ns nf w)
  case Nil
  then show ?case by simp
next
  case (Cons item items)
  obtain chat_id name where item: "item = (chat_id, name)" by (cases item)
  let ?w1 = "log_msg DEBUG (sending_msg name) w"
  obtain r s' w' where d: "deliver e with_host chat_id msg notify self ?w1 = (r, s', w')"
    by (cases "deliver e with_host chat_id msg notify self ?w1")
  have s': "s' = self" using deliver_self[of e with_host chat_id msg notify self ?w1] d by simp
  show ?case
    by (simp add: item d s' Cons.IH split: sum.splits error.splits)
qed

text \<open>
  Claim C10. For every registry, message and flags, and whatever the server answers,
  \<^verbatim>\<open>broadcast\<close> hands the notifier back as it received it: the registered chats, the
  API key and the update cursor are unchanged, also when the call ends with an exception.
\<close>

theorem broadcast_frame:
  "fst (snd (broadcast e msg with_host notify self w)) = self
   \<and> registered_chats (fst (snd (broadcast e msg with_host notify self w))) = registered_chats self
   \<and> api_key (fst (snd (broadcast e msg with_host notify self w))) = api_key self
   \<and> last_update_id (fst (snd (broadcast e msg with_host notify self w))) = last_update_id self"
proof -
  obtain r s' w' where l: "broadcast_loop e msg with_host notify (registered_chats self) 0 0 self w = (r, s', w')"
    by (cases "broadcast_loop e msg with_host notify (registered_chats self) 0 0 self w")
  have "s' = self"
    using broadcast_loop_self[of e msg with_host notify "registered_chats self" 0 0 self w] l by simp
  then have "fst (snd (broadcast e msg with_host notify self w)) = self"
    by (simp add: broadcast_def l split: sum.splits prod.splits)
  then show ?thesis by simp
qed

text \<open>What one delivery does, by the answer of the server.\<close>

lemma deliver_cases:
  "deliver e with_host chat_id msg notify self w =
     (let q = delivery_request e self msg with_host notify chat_id;
          w' = w\<lparr>sent := sent w @ [q]\<rparr>
      in case server e (sent w) q of
           None \<Rightarrow> (Inl (TGException ''Request failed critically (no internet?)''), self, w')
         | Some res \<Rightarrow>
             if status_code res \<noteq> 200
             then (Inl (TGException (''Request failed with status code ''
                      @ show_int (status_code res)
                      @ (if status_code res = 400 then '' (illformed message?)'' else []))),
                   self, w')
             else (case json_body res of
                     None \<Rightarrow> (Inl JSONDecodeError, self, w')
                   | Some j \<Rightarrow> (Inr (), self, w')))"
  by (simp add: deliver_def send_host_msg_def send_msg_def post_def perform_def
        delivery_request_def res_json_def Let_def split: option.splits)

lemma deliver_failed:
  assumes "request_failed (server e (sent w) (delivery_request e self msg with_host notify chat_id))"
  shows "\<exists>reason w'. deliver e with_host chat_id msg notify self w = (Inl (TGException reason), self, w')
           \<and> sent w' = sent w @ [delivery_request e self msg with_host notify chat_id]"
  using assms by (auto simp: deliver_cases request_failed_def Let_def split: option.splits)

lemma deliver_ok:
  assumes "\<not> request_failed (server e (sent w) (delivery_request e self msg with_host notify chat_id))"
      and "delivered_or_failed (server e (sent w) (delivery_request e self msg with_host notify chat_id))"
  shows "\<exists>w'. deliver e with_host chat_id msg notify self w = (Inr (), self, w')
           \<and> sent w' = sent w @ [delivery_request e self msg with_host notify chat_id]"
  using assms
  by (auto simp: deliver_cases request_failed_def delivered_or_failed_def Let_def split: option.splits)

lemma failures_le: "failures as \<le> length as"
  by (simp add: failures_def)

lemma length_answers [simp]: "length (answers srv hist qs) = length qs"
  by (induction qs arbitrary: hist) auto

lemma broadcast_loop_counts:
  assumes "\<forall>a \<in> set (answers (server e) (sent w)
                  (map (\<lambda>item. delivery_request e self msg with_host notify (fst item)) items)).
             delivered_or_failed a"
  shows "\<exists>w'. broadcast_loop e msg with_host notify items ns nf self w
           = (Inr (ns + (length items - failures (answers (server e) (sent w)
                  (map (\<lambda>item. delivery_request e self msg with_host notify (fst item)) items))),
                   nf + failures (answers (server e) (sent w)
                  (map (\<lambda>item. delivery_request e self msg with_host notify (fst item)) items))),
              self, w')
         \<and> sent w' = sent w
              @ map (\<lambda>item. delivery_request e self msg with_host notify (fst item)) items"
  using assms
proof (induction items arbitrary: ns nf w)
  case Nil
  then show ?case by (simp add: failures_def)
next
  case (Cons item items)
  obtain chat_id name where item: "item = (chat_id, name)" by (cases item)
  let ?dr = "\<lambda>item. delivery_request e self msg with_host notify (fst item)"
  let ?q = "delivery_request e self msg with_host notify chat_id"
  let ?w1 = "log_msg DEBUG (sending_msg name) w"
  let ?rest = "answers (server e) (sent w @ [?q]) (map ?dr items)"
  have ans: "answers (server e) (sent w) (map ?dr (item # items)) = server e (sent w) ?q # ?rest"
    by (simp add: item)
  have dof: "delivered_or_failed (server e (sent w) ?q)"
    and rest: "\<forall>a \<in> set ?rest. delivered_or_failed a"
    using Cons.prems unfolding ans by simp_all
  have fle: "failures ?rest \<le> length items"
    using failures_le[of ?rest] by simp
  show ?case
  proof (cases "request_failed (server e (sent w) ?q)")
    case True
    obtain reason w' where d: "deliver e with_host chat_id msg notify self ?w1
                                 = (Inl (TGException reason), self, w')"
      and s: "sent w' = sent w @ [?q]"
      using deliver_failed[of e ?w1 self msg with_host notify chat_id] True by auto
    let ?w2 = "log_msg ERROR (failed_msg name reason) w'"
    have s2: "sent ?w2 = sent w @ [?q]" using s by simp
    obtain w3 where l: "broadcast_loop e msg with_host notify items ns (nf + 1) self ?w2
           = (Inr (ns + (length items - failures ?rest), nf + 1 + failures ?rest), self, w3)"
      and s3: "sent w3 = sent ?w2 @ map ?dr items"
      using Cons.IH[of ?w2 ns "nf + 1"] rest unfolding s2 by auto
    have f: "failures (answers (server e) (sent w) (map ?dr (item # items))) = Suc (failures ?rest)"
      unfolding ans using True by (simp add: failures_def)
    show ?thesis
      unfolding f using l s3 s2 fle by (simp add: item d)
  next
    case False
    obtain w' where d: "deliver e with_host chat_id msg notify self ?w1 = (Inr (), self, w')"
      and s: "sent w' = sent w @ [?q]"
      using deliver_ok[of e ?w1 self msg with_host notify chat_id] False dof by auto
    obtain w3 where l: "broadcast_loop e msg with_host notify items (ns + 1) nf self w'
           = (Inr (ns + 1 + (length items - failures ?rest), nf + failures ?rest), self, w3)"
      and s3: "sent w3 = sent w' @ map ?dr items"
      using Cons.IH[of w' "ns + 1" nf] rest unfolding s by auto
    have f: "failures (answers (server e) (sent w) (map ?dr (item # items))) = failures ?rest"
      unfolding ans using False by (simp add: failures_def)
    show ?thesis
      unfolding f using l s3 s fle by (simp add: item d)
  qed
qed

lemma broadcast_result:
  assumes "\<forall>a \<in> set (answers (server e) (sent w) (deliveries e self msg with_host notify)).
             delivered_or_failed a"
  shows "\<exists>w'. broadcast e msg with_host notify self w
           = (Inr (failures (answers (server e) (sent w) (deliveries e self msg with_host notify))),
              self,
              log_msg INFO
                (done_msg (length (registered_chats self)
                            - failures (answers (server e) (sent w)
                                 (deliveries e self msg with_host notify)))
                          (failures (answers (server e) (sent w)
                                 (deliveries e self msg with_host notify)))) w')
         \<and> sent w' = sent w @ deliveries e self msg with_host notify"
proof -
  obtain w' where l: "broadcast_loop e msg with_host notify (registered_chats self) 0 0 self w
      = (Inr (0 + (length (registered_chats self)
                    - failures (answers (server e) (sent w) (deliveries e self msg with_host notify))),
              0 + failures (answers (server e) (sent w) (deliveries e self msg with_host notify))),
         self, w')"
    and s: "sent w' = sent w @ deliveries e self msg with_host notify"
    using broadcast_loop_counts[of e w self msg with_host notify "registered_chats self" 0 0] assms
    unfolding deliveries_def by blast
  show ?thesis
    by (rule exI[of _ w']) (simp add: broadcast_def l s)
qed

lemma show_nat_digits:
  "show_nat 0 = ''0''" "show_nat (Suc 0) = ''1''" "show_nat (Suc (Suc 0)) = ''2''"
  by (simp_all add: show_nat.simps digit_def)

text \<open>
  Claim C1, as amended. Let every delivery either succeed or raise \<open>TGException\<close>, and
  let \<open>F\<close> of the \<open>N\<close> deliveries raise it, wherever in the registry they stand. Then
  \<^verbatim>\<open>broadcast\<close> sends one request to each of the \<open>N\<close> recipients, in the order of the
  registry; it returns the number \<open>F\<close> of failures alone (the source ends with
  \<^verbatim>\<open>return num_failure\<close>); and the number of successes \<open>N - F\<close> is reported, with
  \<open>F\<close>, in the last line it logs.
\<close>

theorem broadcast_counts:
  assumes "\<forall>a \<in> set (answers (server e) (sent w) (deliveries e self msg with_host notify)).
             delivered_or_failed a"
  shows "fst (broadcast e msg with_host notify self w)
           = Inr (failures (answers (server e) (sent w) (deliveries e self msg with_host notify)))
         \<and> sent (snd (snd (broadcast e msg with_host notify self w)))
           = sent w @ deliveries e self msg with_host notify
         \<and> length (deliveries e self msg with_host notify) = length (registered_chats self)
         \<and> failures (answers (server e) (sent w) (deliveries e self msg with_host notify))
           \<le> length (registered_chats self)
         \<and> last (logged (snd (snd (broadcast e msg with_host notify self w))))
           = (INFO, done_msg (length (registered_chats self)
                               - failures (answers (server e) (sent w)
                                    (deliveries e self msg with_host notify)))
                             (failures (answers (server e) (sent w)
                                    (deliveries e self msg with_host notify))))"
proof -
  let ?F = "failures (answers (server e) (sent w) (deliveries e self msg with_host notify))"
  obtain w' where b: "broadcast e msg with_host notify self w
           = (Inr ?F, self, log_msg INFO (done_msg (length (registered_chats self) - ?F) ?F) w')"
    and s: "sent w' = sent w @ deliveries e self msg with_host notify"
    using broadcast_result[OF assms] by blast
  have len: "length (deliveries e self msg with_host notify) = length (registered_chats self)"
    by (simp add: deliveries_def)
  have "?F \<le> length (deliveries e self msg with_host notify)"
    using failures_le[of "answers (server e) (sent w) (deliveries e self msg with_host notify)"]
    by simp
  then show ?thesis using len by (simp add: b s)
qed

theorem broadcast_counts_witness:
  "fst (broadcast chat_2_fails ''hi'' False False
          (tgn [(KStr ''2'', ''Bob''), (KStr ''1'', ''Alice''), (KInt 3, ''Carol'')]) fresh) = Inr 1
   \<and> map (\<lambda>q. map_option (\<lambda>d. alist_get d ''chat_id'') (data q))
        (sent (snd (snd (broadcast chat_2_fails ''hi'' False False
          (tgn [(KStr ''2'', ''Bob''), (KStr ''1'', ''Alice''), (KInt 3, ''Carol'')]) fresh))))
       = [Some (Some (JStr ''2'')), Some (Some (JStr ''1'')), Some (Some (JInt 3))]
   \<and> last (logged (snd (snd (broadcast chat_2_fails ''hi'' False False
          (tgn [(KStr ''2'', ''Bob''), (KStr ''1'', ''Alice''), (KInt 3, ''Carol'')]) fresh))))
       = (INFO, ''Done sending messages, 2 successful, 1 failed.'')"
  using broadcast_counts
          [of chat_2_fails fresh "tgn [(KStr ''2'', ''Bob''), (KStr ''1'', ''Alice''), (KInt 3, ''Carol'')]"
              "''hi''" False False]
  by (simp add: deliveries_def delivery_request_def send_msg_payload_def chat_2_fails_def
        tgn_def init_def fresh_def delivered_or_failed_def failures_def request_failed_def
        done_msg_def show_nat_digits)

text \<open>
  Claim C1 as it is stated says that the call returns an outcome holding both counts.
  With the registry of the spec's scenario (Alice succeeds, Bob fails with status 400)
  the call returns the number 1, and it returns the same 1 when Bob is alone in the
  registry and nobody succeeds: the value returned does not hold the number of successes.
\<close>

theorem broadcast_return_counterexample:
  "fst (broadcast chat_2_fails ''hi'' True False
          (tgn [(KStr ''1'', ''Alice''), (KStr ''2'', ''Bob'')]) fresh) = Inr 1
   \<and> fst (broadcast chat_2_fails ''hi'' True False (tgn [(KStr ''2'', ''Bob'')]) fresh) = Inr 1"
  by (simp add: broadcast_def deliver_cases delivery_request_def send_msg_payload_def
        chat_2_fails_def tgn_def init_def fresh_def log_msg_def Let_def)

text \<open>
  Claim C2 against the code. \<^verbatim>\<open>main\<close> calls \<^verbatim>\<open>broadcast\<close> with \<^verbatim>\<open>notify=(not args.mute)\<close> and
  \<^verbatim>\<open>send_msg\<close> stores \<^verbatim>\<open>notify\<close> in the field \<^verbatim>\<open>disable_notification\<close>. A muted run
  (\<^verbatim>\<open>--mute\<close>) therefore sends \<^verbatim>\<open>disable_notification\<close> false, and a run that is not muted
  sends it true.
\<close>

theorem mute_leaves_notification_on:
  "sent (snd (snd (main_send (always (Some (Response 200 [] (Some (JObj [])))) ''host'')
                     [''hi''] True (tgn [(KStr ''1'', ''Alice'')]) fresh)))
     = [Request POST ''https://api.telegram.org/botTOKEN/sendMessage''
          (Some [(''chat_id'', JStr ''1''),
                 (''text'', JStr (host_msg ''hi'' ''host'')),
                 (''parse_mode'', JStr ''markdown''),
                 (''disable_notification'', JBool False)])]
   \<and> sent (snd (snd (main_send (always (Some (Response 200 [] (Some (JObj [])))) ''host'')
                     [''hi''] False (tgn [(KStr ''1'', ''Alice'')]) fresh)))
     = [Request POST ''https://api.telegram.org/botTOKEN/sendMessage''
          (Some [(''chat_id'', JStr ''1''),
                 (''text'', JStr (host_msg ''hi'' ''host'')),
                 (''parse_mode'', JStr ''markdown''),
                 (''disable_notification'', JBool True)])]"
  by (simp add: main_send_def broadcast_def deliver_cases delivery_request_def send_msg_payload_def
        always_def tgn_def init_def fresh_def log_msg_def Let_def)

subsection \<open>Pulling updates\<close>

lemma get_updates_loop_mono: "get_updates_loop m upds = Inr m' \<Longrightarrow> m \<le> m'"
proof (induction upds arbitrary: m)
  case Nil
  then show ?case by simp
next
  case (Cons upd upds)
  from Cons.prems obtain j i where "subscript upd ''update_id'' = Inr j" "py_num j = Inr i"
    and l: "get_updates_loop (max m i) upds = Inr m'"
    by (auto split: sum.splits)
  from Cons.IH[OF l] show ?case by simp
qed

lemma get_updates_loop_ids:
  "update_ids upds = Some ids \<Longrightarrow> get_updates_loop m upds = Inr (Max (insert m (set ids)))"
proof (induction upds arbitrary: m ids)
  case Nil
  then show ?case by simp
next
  case (Cons upd upds)
  from Cons.prems obtain j i ids' where s: "subscript upd ''update_id'' = Inr j" and n: "py_num j = Inr i"
    and u: "update_ids upds = Some ids'" and ids: "ids = i # ids'"
    by (auto split: sum.splits)
  have "Max (insert (max m i) (set ids')) = Max (insert m (set ids))"
  proof (cases "set ids' = {}")
    case True
    then show ?thesis by (simp add: ids)
  next
    case False
    then show ?thesis by (simp add: ids max.assoc)
  qed
  then show ?case using Cons.IH[OF u, of "max m i"] by (simp add: s n)
qed

text \<open>One call of \<^verbatim>\<open>get\<close>, by the answer of the server.\<close>

lemma get_cases:
  "get e method dat self w =
     (let q = Request GET (bot_url self @ ''/'' @ method) dat;
          w' = w\<lparr>sent := sent w @ [q]\<rparr>
      in case server e (sent w) q of
           None \<Rightarrow> (Inl (TGException ''Request failed critically (no internet?)''), self, w')
         | Some res \<Rightarrow>
             if status_code res \<noteq> 200
             then (Inl (TGException (''Request failed with status code ''
                      @ show_int (status_code res))), self, w')
             else (case json_body res of
                     None \<Rightarrow> (Inl JSONDecodeError, self, w')
                   | Some j \<Rightarrow> (Inr j, self, w')))"
  by (simp add: get_def checked_get_request_def perform_def res_json_def Let_def
        split: option.splits)

lemma get_sent: "sent (snd (snd (get e method dat self w)))
                   = sent w @ [Request GET (bot_url self @ ''/'' @ method) dat]"
  by (simp add: get_cases Let_def split: option.splits)

lemma get_self: "fst (snd (get e method dat self w)) = self"
  by (simp add: get_cases Let_def split: option.splits)

lemma get_files: "files (snd (snd (get e method dat self w))) = files w"
  by (simp add: get_cases Let_def split: option.splits)

lemma payload_offset:
  "dict_setitem (get_updates_payload offset limit timeout) ''offset'' (JInt offset')
     = get_updates_payload offset' limit timeout"
  by (simp add: get_updates_payload_def)

lemma batch_ofD:
  assumes "batch_of a = Some (results, upds)"
  shows "\<exists>res dat. a = Some res \<and> status_code res = 200 \<and> json_body res = Some dat
           \<and> subscript dat ''result'' = Inr results \<and> py_iter results = Inr upds"
  using assms by (auto simp: batch_of_def split: option.splits if_splits sum.splits)

lemma get_effect:
  assumes "get e m dat self w = (r, s', w')"
  shows "s' = self" and "sent w' = sent w @ [Request GET (bot_url self @ ''/'' @ m) dat]"
  using get_self[of e m dat self w] get_sent[of e m dat self w] assms by simp_all

text \<open>
  The two ways a call of \<^verbatim>\<open>get_updates\<close> can go: it raises before the cursor is assigned,
  having sent the first request only; or it assigns a cursor that is not smaller, sends
  the second request with the offset one past it, and returns or raises after that.
\<close>

lemma get_updates_shape:
  "(\<exists>err w1. get_updates e limit timeout self w = (Inl err, self, w1)
        \<and> sent w1 = sent w @ [pull_request self (last_update_id self + 1) limit timeout])
   \<or> (\<exists>r K w2. get_updates e limit timeout self w = (r, self\<lparr>last_update_id := K\<rparr>, w2)
        \<and> last_update_id self \<le> K
        \<and> sent w2 = sent w @ [pull_request self (last_update_id self + 1) limit timeout,
                               pull_request self (K + 1) limit timeout])"
proof -
  let ?p = "get_updates_payload (last_update_id self + 1) limit timeout"
  let ?q1 = "pull_request self (last_update_id self + 1) limit timeout"
  obtain r s1 w1 where g: "get e ''getUpdates'' (Some ?p) self w = (r, s1, w1)"
    by (cases "get e ''getUpdates'' (Some ?p) self w")
  have s1: "s1 = self" and w1: "sent w1 = sent w @ [?q1]"
    using get_effect[OF g] by (simp_all add: pull_request_def)
  show ?thesis
  proof (cases r)
    case (Inl err)
    then have "get_updates e limit timeout self w = (Inl err, self, w1)"
      by (simp add: get_updates_def Let_def g s1)
    then show ?thesis using w1 by blast
  next
    case dat: (Inr dat)
    show ?thesis
    proof (cases "subscript dat ''result''")
      case (Inl err)
      then have "get_updates e limit timeout self w = (Inl err, self, w1)"
        by (simp add: get_updates_def Let_def g s1 dat)
      then show ?thesis using w1 by blast
    next
      case results: (Inr results)
      show ?thesis
      proof (cases "py_iter results")
        case (Inl err)
        then have "get_updates e limit timeout self w = (Inl err, self, w1)"
          by (simp add: get_updates_def Let_def g s1 dat results)
        then show ?thesis using w1 by blast
      next
        case upds: (Inr upds)
        show ?thesis
        proof (cases "get_updates_loop (last_update_id self) upds")
          case (Inl err)
          then have "get_updates e limit timeout self w = (Inl err, self, w1)"
            by (simp add: get_updates_def Let_def g s1 dat results upds)
          then show ?thesis using w1 by blast
        next
          case K: (Inr K)
          let ?s2 = "self\<lparr>last_update_id := K\<rparr>"
          let ?p2 = "get_updates_payload (K + 1) limit timeout"
          obtain r2 s3 w3 where g2: "get e ''getUpdates'' (Some ?p2) ?s2 w1 = (r2, s3, w3)"
            by (cases "get e ''getUpdates'' (Some ?p2) ?s2 w1")
          have s3: "s3 = ?s2" and w3: "sent w3 = sent w @ [?q1, pull_request self (K + 1) limit timeout]"
            using get_effect[OF g2] w1 by (simp_all add: pull_request_def)
          have "get_updates e limit timeout self w
                  = ((case r2 of Inl err \<Rightarrow> Inl err | Inr ack \<Rightarrow> Inr results), ?s2, w3)"
            by (simp add: get_updates_def Let_def g s1 dat results upds K payload_offset g2 s3
                  split: sum.splits)
          moreover have "last_update_id self \<le> K"
            using get_updates_loop_mono[OF K] .
          ultimately show ?thesis using w3 by blast
        qed
      qed
    qed
  qed
qed

lemma get_updates_ok:
  assumes b: "batch_of (server e (sent w) (pull_request self (last_update_id self + 1) limit timeout))
                = Some (results, upds)"
      and u: "update_ids upds = Some ids"
  shows "\<exists>r w2. get_updates e limit timeout self w
            = (r, self\<lparr>last_update_id := Max (insert (last_update_id self) (set ids))\<rparr>, w2)
          \<and> sent w2 = sent w @ [pull_request self (last_update_id self + 1) limit timeout,
                 pull_request self (Max (insert (last_update_id self) (set ids)) + 1) limit timeout]
          \<and> logged w2 = logged w \<and> files w2 = files w
          \<and> (if answered_json
                   (server e (sent w @ [pull_request self (last_update_id self + 1) limit timeout])
                      (pull_request self (Max (insert (last_update_id self) (set ids)) + 1)
                         limit timeout))
              then r = Inr results else \<exists>err. r = Inl err)"
proof -
  let ?p = "get_updates_payload (last_update_id self + 1) limit timeout"
  let ?q1 = "pull_request self (last_update_id self + 1) limit timeout"
  let ?K = "Max (insert (last_update_id self) (set ids))"
  let ?q2 = "pull_request self (?K + 1) limit timeout"
  let ?w1 = "w\<lparr>sent := sent w @ [?q1]\<rparr>"
  let ?w2 = "w\<lparr>sent := sent w @ [?q1, ?q2]\<rparr>"
  let ?s2 = "self\<lparr>last_update_id := ?K\<rparr>"
  from batch_ofD[OF b] obtain res dat where
    a: "server e (sent w) ?q1 = Some res" and st: "status_code res = 200"
    and jb: "json_body res = Some dat" and sr: "subscript dat ''result'' = Inr results"
    and it: "py_iter results = Inr upds"
    by blast
  have g: "get e ''getUpdates'' (Some ?p) self w = (Inr dat, self, ?w1)"
    using a st jb by (simp add: get_cases Let_def pull_request_def)
  have l: "get_updates_loop (last_update_id self) upds = Inr ?K"
    using get_updates_loop_ids[OF u] .
  have g2: "get e ''getUpdates'' (Some (get_updates_payload (?K + 1) limit timeout)) ?s2 ?w1
       = (case server e (sent w @ [?q1]) ?q2 of
            None \<Rightarrow> (Inl (TGException ''Request failed critically (no internet?)''), ?s2, ?w2)
          | Some res \<Rightarrow>
             if status_code res \<noteq> 200
             then (Inl (TGException (''Request failed with status code ''
                      @ show_int (status_code res))), ?s2, ?w2)
             else (case json_body res of
                     None \<Rightarrow> (Inl JSONDecodeError, ?s2, ?w2)
                   | Some j \<Rightarrow> (Inr j, ?s2, ?w2)))"
    by (simp add: get_cases Let_def pull_request_def split: option.splits)
  have gu: "get_updates e limit timeout self w
      = (case get e ''getUpdates'' (Some (get_updates_payload (?K + 1) limit timeout)) ?s2 ?w1 of
           (Inl err, self3, w3) \<Rightarrow> (Inl err, self3, w3)
         | (Inr ack, self3, w3) \<Rightarrow> (Inr results, self3, w3))"
    by (simp add: get_updates_def Let_def g sr it l payload_offset)
  show ?thesis
    unfolding gu g2
    by (cases "server e (sent w @ [?q1]) ?q2")
       (auto simp: answered_json_def split: option.splits)
qed

lemma update_ids_length: "update_ids upds = Some ids \<Longrightarrow> length ids = length upds"
proof (induction upds arbitrary: ids)
  case Nil
  then show ?case by simp
next
  case (Cons upd upds)
  then show ?case by (auto split: sum.splits)
qed

lemma batch_server_batch:
  "batch_of (server (batch_server upds) h q) = Some (JList upds, upds)"
  by (simp add: batch_server_def always_def batch_of_def)

lemma batch_server_answered: "answered_json (server (batch_server upds) h q)"
  by (simp add: batch_server_def always_def answered_json_def)

lemma sent_fresh: "sent fresh = []"
  by (simp add: fresh_def)

lemma two_updates_batch:
  "batch_of (server (batch_server [update_from 41 7 [], update_from 42 9 []]) (sent fresh)
               (pull_request ((tgn [])\<lparr>last_update_id := 40\<rparr>)
                  (last_update_id ((tgn [])\<lparr>last_update_id := 40\<rparr>) + 1) 100 0))
     = Some (JList [update_from 41 7 [], update_from 42 9 []],
             [update_from 41 7 [], update_from 42 9 []])
   \<and> update_ids [update_from 41 7 [], update_from 42 9 []] = Some [41, 42]"
  by (simp add: batch_server_batch update_from_def)

lemma no_updates_batch:
  "batch_of (server (batch_server []) (sent fresh)
               (pull_request ((tgn [])\<lparr>last_update_id := 40\<rparr>)
                  (last_update_id ((tgn [])\<lparr>last_update_id := 40\<rparr>) + 1) 100 0))
     = Some (JList [], [])
   \<and> update_ids [] = Some []"
  by (simp add: batch_server_batch)

text \<open>
  Claim C3. Let the first request of \<^verbatim>\<open>get_updates\<close> return a batch of updates with
  integer identifiers, and let \<open>C\<close> be the cursor before the call. When the batch is not
  empty, its greatest identifier is \<open>K\<close> and \<open>C \<le> K\<close>, the cursor is \<open>K\<close> after the call;
  when the batch is empty the cursor is unchanged. In every case, whatever the server
  answers and also when the call raises, the cursor after the call is not smaller than
  before.
\<close>

theorem cursor_after_pull:
  "last_update_id self \<le> last_update_id (fst (snd (get_updates e limit timeout self w)))
   \<and> (\<forall>results upds ids.
        batch_of (server e (sent w) (pull_request self (last_update_id self + 1) limit timeout))
          = Some (results, upds)
        \<and> update_ids upds = Some ids \<longrightarrow>
          (upds = [] \<longrightarrow>
             last_update_id (fst (snd (get_updates e limit timeout self w))) = last_update_id self)
        \<and> (upds \<noteq> [] \<and> last_update_id self \<le> Max (set ids) \<longrightarrow>
             last_update_id (fst (snd (get_updates e limit timeout self w))) = Max (set ids))
        \<and> last_update_id (fst (snd (get_updates e limit timeout self w)))
             = Max (insert (last_update_id self) (set ids)))"
proof -
  have mono: "last_update_id self \<le> last_update_id (fst (snd (get_updates e limit timeout self w)))"
    using get_updates_shape[of e limit timeout self w] by auto
  have batch: "(upds = [] \<longrightarrow>
             last_update_id (fst (snd (get_updates e limit timeout self w))) = last_update_id self)
        \<and> (upds \<noteq> [] \<and> last_update_id self \<le> Max (set ids) \<longrightarrow>
             last_update_id (fst (snd (get_updates e limit timeout self w))) = Max (set ids))
        \<and> last_update_id (fst (snd (get_updates e limit timeout self w)))
             = Max (insert (last_update_id self) (set ids))"
    if b: "batch_of (server e (sent w) (pull_request self (last_update_id self + 1) limit timeout))
             = Some (results, upds)"
      and u: "update_ids upds = Some ids"
    for results upds ids
  proof -
    have c: "last_update_id (fst (snd (get_updates e limit timeout self w)))
               = Max (insert (last_update_id self) (set ids))"
      using get_updates_ok[OF b u] by auto
    have len: "length ids = length upds" using update_ids_length[OF u] .
    have e: "upds = [] \<Longrightarrow> Max (insert (last_update_id self) (set ids)) = last_update_id self"
      using len by simp
    have n: "upds \<noteq> [] \<Longrightarrow> last_update_id self \<le> Max (set ids)
               \<Longrightarrow> Max (insert (last_update_id self) (set ids)) = Max (set ids)"
    proof -
      assume "upds \<noteq> []" and le: "last_update_id self \<le> Max (set ids)"
      then have "set ids \<noteq> {}" using len by auto
      then show ?thesis using le by simp
    qed
    show ?thesis using c e n by simp
  qed
  show ?thesis using mono batch by blast
qed

theorem cursor_after_pull_witness:
  "last_update_id (fst (snd (get_updates (batch_server [update_from 41 7 [], update_from 42 9 []])
                               100 0 ((tgn [])\<lparr>last_update_id := 40\<rparr>) fresh))) = 42
   \<and> last_update_id (fst (snd (get_updates (batch_server [])
                               100 0 ((tgn [])\<lparr>last_update_id := 40\<rparr>) fresh))) = 40"
  using cursor_after_pull [THEN conjunct2, rule_format, OF two_updates_batch]
        cursor_after_pull [THEN conjunct2, rule_format, OF no_updates_batch]
  by simp

lemma get_updates_first_failed:
  assumes "request_failed (server e (sent w)
             (pull_request self (last_update_id self + 1) limit timeout))"
  shows "raises_TGException (fst (get_updates e limit timeout self w))"
    and "sent (snd (snd (get_updates e limit timeout self w)))
           = sent w @ [pull_request self (last_update_id self + 1) limit timeout]"
    and "fst (snd (get_updates e limit timeout self w)) = self"
proof -
  let ?p = "get_updates_payload (last_update_id self + 1) limit timeout"
  obtain r s1 w1 where g: "get e ''getUpdates'' (Some ?p) self w = (r, s1, w1)"
    by (cases "get e ''getUpdates'' (Some ?p) self w")
  have "raises_TGException r"
    using get_raises[of e "''getUpdates''" "Some ?p" self w] assms g
    by (simp add: pull_request_def)
  then obtain err where r: "r = Inl err" and t: "is_TGException err"
    by (cases r) (simp_all add: raises_TGException_def)
  have s1: "s1 = self"
    and w1: "sent w1 = sent w @ [pull_request self (last_update_id self + 1) limit timeout]"
    using get_effect[OF g] by (simp_all add: pull_request_def)
  have gu: "get_updates e limit timeout self w = (Inl err, self, w1)"
    by (simp add: get_updates_def Let_def g r s1)
  show "raises_TGException (fst (get_updates e limit timeout self w))"
    by (simp add: gu raises_TGException_def t)
  show "sent (snd (snd (get_updates e limit timeout self w)))
           = sent w @ [pull_request self (last_update_id self + 1) limit timeout]"
    by (simp add: gu w1)
  show "fst (snd (get_updates e limit timeout self w)) = self"
    by (simp add: gu)
qed

lemma get_updates_ack_failed:
  assumes b: "batch_of (server e (sent w) (pull_request self (last_update_id self + 1) limit timeout))
                = Some (results, upds)"
      and u: "update_ids upds = Some ids"
      and f: "request_failed
                (server e (sent w @ [pull_request self (last_update_id self + 1) limit timeout])
                   (pull_request self (Max (insert (last_update_id self) (set ids)) + 1)
                      limit timeout))"
  shows "raises_TGException (fst (get_updates e limit timeout self w))"
proof -
  let ?p = "get_updates_payload (last_update_id self + 1) limit timeout"
  let ?q1 = "pull_request self (last_update_id self + 1) limit timeout"
  let ?K = "Max (insert (last_update_id self) (set ids))"
  let ?w1 = "w\<lparr>sent := sent w @ [?q1]\<rparr>"
  let ?s2 = "self\<lparr>last_update_id := ?K\<rparr>"
  let ?p2 = "get_updates_payload (?K + 1) limit timeout"
  from batch_ofD[OF b] obtain res dat where
    a: "server e (sent w) ?q1 = Some res" and st: "status_code res = 200"
    and jb: "json_body res = Some dat" and sr: "subscript dat ''result'' = Inr results"
    and it: "py_iter results = Inr upds"
    by blast
  have g: "get e ''getUpdates'' (Some ?p) self w = (Inr dat, self, ?w1)"
    using a st jb by (simp add: get_cases Let_def pull_request_def)
  have l: "get_updates_loop (last_update_id self) upds = Inr ?K"
    using get_updates_loop_ids[OF u] .
  obtain r2 s3 w3 where g2: "get e ''getUpdates'' (Some ?p2) ?s2 ?w1 = (r2, s3, w3)"
    by (cases "get e ''getUpdates'' (Some ?p2) ?s2 ?w1")
  have "raises_TGException r2"
    using get_raises[of e "''getUpdates''" "Some ?p2" ?s2 ?w1] f g2
    by (simp add: pull_request_def)
  then obtain err where r2: "r2 = Inl err" and t: "is_TGException err"
    by (cases r2) (simp_all add: raises_TGException_def)
  have "get_updates e limit timeout self w = (Inl err, s3, w3)"
    by (simp add: get_updates_def Let_def g sr it l payload_offset g2 r2)
  then show ?thesis by (simp add: raises_TGException_def t)
qed

text \<open>
  Claim C4, as amended. Every call of \<^verbatim>\<open>get_updates\<close> first sends a \<^verbatim>\<open>getUpdates\<close>
  request whose offset is one past the cursor. When that request fails (no connection,
  or a status other than 200) the call raises \<open>TGException\<close> and has sent nothing
  else. When it returns a batch of updates with integer identifiers, the call sends a
  second \<^verbatim>\<open>getUpdates\<close> request whose offset is one past the new cursor, and nothing
  else; when the second request is answered too (status 200, decodable body, which is
  not looked at), the call returns exactly the value the first answer holds under
  \<^verbatim>\<open>"result"\<close>; and when the second request fails the call raises \<open>TGException\<close>.
\<close>

theorem pull_and_acknowledge:
  "(\<exists>rest. sent (snd (snd (get_updates e limit timeout self w)))
             = sent w @ pull_request self (last_update_id self + 1) limit timeout # rest)
   \<and> (request_failed (server e (sent w)
                         (pull_request self (last_update_id self + 1) limit timeout))
        \<longrightarrow> raises_TGException (fst (get_updates e limit timeout self w))
          \<and> sent (snd (snd (get_updates e limit timeout self w)))
              = sent w @ [pull_request self (last_update_id self + 1) limit timeout])
   \<and> (\<forall>results upds ids.
        batch_of (server e (sent w) (pull_request self (last_update_id self + 1) limit timeout))
          = Some (results, upds)
        \<and> update_ids upds = Some ids \<longrightarrow>
          sent (snd (snd (get_updates e limit timeout self w)))
            = sent w @ [pull_request self (last_update_id self + 1) limit timeout,
                        pull_request self
                          (last_update_id (fst (snd (get_updates e limit timeout self w))) + 1)
                          limit timeout]
        \<and> (answered_json
              (server e (sent w @ [pull_request self (last_update_id self + 1) limit timeout])
                 (pull_request self
                    (last_update_id (fst (snd (get_updates e limit timeout self w))) + 1)
                    limit timeout))
             \<longrightarrow> fst (get_updates e limit timeout self w) = Inr results)
        \<and> (request_failed
              (server e (sent w @ [pull_request self (last_update_id self + 1) limit timeout])
                 (pull_request self
                    (last_update_id (fst (snd (get_updates e limit timeout self w))) + 1)
                    limit timeout))
             \<longrightarrow> raises_TGException (fst (get_updates e limit timeout self w))))"
proof -
  have first: "\<exists>rest. sent (snd (snd (get_updates e limit timeout self w)))
             = sent w @ pull_request self (last_update_id self + 1) limit timeout # rest"
    using get_updates_shape[of e limit timeout self w] by auto
  have failed: "raises_TGException (fst (get_updates e limit timeout self w))
          \<and> sent (snd (snd (get_updates e limit timeout self w)))
              = sent w @ [pull_request self (last_update_id self + 1) limit timeout]"
    if "request_failed (server e (sent w)
                         (pull_request self (last_update_id self + 1) limit timeout))"
    using get_updates_first_failed(1,2)[OF that] by simp
  have batch: "sent (snd (snd (get_updates e limit timeout self w)))
            = sent w @ [pull_request self (last_update_id self + 1) limit timeout,
                        pull_request self
                          (last_update_id (fst (snd (get_updates e limit timeout self w))) + 1)
                          limit timeout]
        \<and> (answered_json
              (server e (sent w @ [pull_request self (last_update_id self + 1) limit timeout])
                 (pull_request self
                    (last_update_id (fst (snd (get_updates e limit timeout self w))) + 1)
                    limit timeout))
             \<longrightarrow> fst (get_updates e limit timeout self w) = Inr results)
        \<and> (request_failed
              (server e (sent w @ [pull_request self (last_update_id self + 1) limit timeout])
                 (pull_request self
                    (last_update_id (fst (snd (get_updates e limit timeout self w))) + 1)
                    limit timeout))
             \<longrightarrow> raises_TGException (fst (get_updates e limit timeout self w)))"
    if b: "batch_of (server e (sent w) (pull_request self (last_update_id self + 1) limit timeout))
             = Some (results, upds)"
      and u: "update_ids upds = Some ids"
    for results upds ids
  proof -
    have c: "last_update_id (fst (snd (get_updates e limit timeout self w)))
               = Max (insert (last_update_id self) (set ids))"
      using get_updates_ok[OF b u] by auto
    have ok: "sent (snd (snd (get_updates e limit timeout self w)))
            = sent w @ [pull_request self (last_update_id self + 1) limit timeout,
                        pull_request self
                          (last_update_id (fst (snd (get_updates e limit timeout self w))) + 1)
                          limit timeout]
        \<and> (answered_json
              (server e (sent w @ [pull_request self (last_update_id self + 1) limit timeout])
                 (pull_request self
                    (last_update_id (fst (snd (get_updates e limit timeout self w))) + 1)
                    limit timeout))
             \<longrightarrow> fst (get_updates e limit timeout self w) = Inr results)"
      using get_updates_ok[OF b u] by (auto split: if_splits)
    show ?thesis
      using ok get_updates_ack_failed[OF b u] unfolding c by blast
  qed
  show ?thesis using first failed batch by blast
qed


lemma ack_fails_batch:
  "batch_of (server (ack_fails [update_from 41 7 [], update_from 42 9 []]) (sent fresh)
               (pull_request ((tgn [])\<lparr>last_update_id := 40\<rparr>)
                  (last_update_id ((tgn [])\<lparr>last_update_id := 40\<rparr>) + 1) 100 0))
     = Some (JList [update_from 41 7 [], update_from 42 9 []],
             [update_from 41 7 [], update_from 42 9 []])
   \<and> update_ids [update_from 41 7 [], update_from 42 9 []] = Some [41, 42]"
  by (simp add: ack_fails_def batch_of_def update_from_def sent_fresh)

lemma ack_fails_failed: "request_failed (server (ack_fails upds) (h @ [q]) q')"
  by (simp add: ack_fails_def request_failed_def)

lemma no_connection_failed: "request_failed (server (always None host) h q)"
  by (simp add: always_def request_failed_def)

theorem pull_and_acknowledge_witness:
  "sent (snd (snd (get_updates (batch_server [update_from 41 7 [], update_from 42 9 []])
                     100 0 ((tgn [])\<lparr>last_update_id := 40\<rparr>) fresh)))
     = [pull_request (tgn []) 41 100 0, pull_request (tgn []) 43 100 0]
   \<and> fst (get_updates (batch_server [update_from 41 7 [], update_from 42 9 []])
                     100 0 ((tgn [])\<lparr>last_update_id := 40\<rparr>) fresh)
     = Inr (JList [update_from 41 7 [], update_from 42 9 []])
   \<and> raises_TGException (fst (get_updates (always None ''host'') 100 0
                                 ((tgn [])\<lparr>last_update_id := 40\<rparr>) fresh))
   \<and> sent (snd (snd (get_updates (always None ''host'') 100 0
                        ((tgn [])\<lparr>last_update_id := 40\<rparr>) fresh)))
     = [pull_request (tgn []) 41 100 0]
   \<and> raises_TGException
         (fst (get_updates (ack_fails [update_from 41 7 [], update_from 42 9 []])
                 100 0 ((tgn [])\<lparr>last_update_id := 40\<rparr>) fresh))
   \<and> sent (snd (snd (get_updates (ack_fails [update_from 41 7 [], update_from 42 9 []])
                     100 0 ((tgn [])\<lparr>last_update_id := 40\<rparr>) fresh)))
     = [pull_request (tgn []) 41 100 0, pull_request (tgn []) 43 100 0]"
proof -
  have c: "last_update_id (fst (snd (get_updates (batch_server [update_from 41 7 [], update_from 42 9 []])
                               100 0 ((tgn [])\<lparr>last_update_id := 40\<rparr>) fresh))) = 42"
    using get_updates_ok [OF two_updates_batch [THEN conjunct1] two_updates_batch [THEN conjunct2]]
    by auto
  have c': "last_update_id (fst (snd (get_updates (ack_fails [update_from 41 7 [], update_from 42 9 []])
                               100 0 ((tgn [])\<lparr>last_update_id := 40\<rparr>) fresh))) = 42"
    using get_updates_ok [OF ack_fails_batch [THEN conjunct1] ack_fails_batch [THEN conjunct2]]
    by auto
  have ok: "sent (snd (snd (get_updates (batch_server [update_from 41 7 [], update_from 42 9 []])
                     100 0 ((tgn [])\<lparr>last_update_id := 40\<rparr>) fresh)))
     = [pull_request (tgn []) 41 100 0, pull_request (tgn []) 43 100 0]
   \<and> fst (get_updates (batch_server [update_from 41 7 [], update_from 42 9 []])
                     100 0 ((tgn [])\<lparr>last_update_id := 40\<rparr>) fresh)
     = Inr (JList [update_from 41 7 [], update_from 42 9 []])"
    using pull_and_acknowledge [THEN conjunct2, THEN conjunct2, rule_format, OF two_updates_batch]
    by (simp add: batch_server_answered c pull_request_def sent_fresh)
  have nc: "raises_TGException (fst (get_updates (always None ''host'') 100 0
                                 ((tgn [])\<lparr>last_update_id := 40\<rparr>) fresh))
   \<and> sent (snd (snd (get_updates (always None ''host'') 100 0
                        ((tgn [])\<lparr>last_update_id := 40\<rparr>) fresh)))
     = [pull_request (tgn []) 41 100 0]"
    using pull_and_acknowledge
            [where e = "always None ''host''" and w = fresh
               and self = "(tgn [])\<lparr>last_update_id := 40\<rparr>" and limit = 100 and timeout = 0,
             THEN conjunct2, THEN conjunct1, rule_format, OF no_connection_failed]
    by (simp add: pull_request_def sent_fresh)
  have af: "raises_TGException
         (fst (get_updates (ack_fails [update_from 41 7 [], update_from 42 9 []])
                 100 0 ((tgn [])\<lparr>last_update_id := 40\<rparr>) fresh))
   \<and> sent (snd (snd (get_updates (ack_fails [update_from 41 7 [], update_from 42 9 []])
                     100 0 ((tgn [])\<lparr>last_update_id := 40\<rparr>) fresh)))
     = [pull_request (tgn []) 41 100 0, pull_request (tgn []) 43 100 0]"
    using pull_and_acknowledge [THEN conjunct2, THEN conjunct2, rule_format, OF ack_fails_batch]
          ack_fails_failed [of "[update_from 41 7 [], update_from 42 9 []]" "[]"]
    by (simp add: c' pull_request_def sent_fresh)
  show ?thesis using ok nc af by simp
qed

text \<open>
  Claim C4 as it is stated says that every call sends the second request. A call whose
  first request fails (here: no connection) raises at once and has sent one request.
\<close>

theorem pull_without_acknowledge_counterexample:
  "sent (snd (snd (get_updates (always None ''host'') 100 0 (tgn []) fresh)))
     = [pull_request (tgn []) 1 100 0]
   \<and> fst (get_updates (always None ''host'') 100 0 (tgn []) fresh)
     = Inl (TGException ''Request failed critically (no internet?)'')"
  by (simp add: get_updates_def get_cases Let_def always_def pull_request_def tgn_def init_def
        fresh_def)

subsection \<open>Discovering chats\<close>

lemma alist_get_None: "k \<notin> fst ` set d \<Longrightarrow> alist_get d k = None"
  by (induction d) auto

lemma alist_get_append:
  "alist_get (xs @ ys) k = (case alist_get xs k of Some v \<Rightarrow> Some v | None \<Rightarrow> alist_get ys k)"
  by (induction xs) auto

lemma alist_get_update:
  "alist_get (dict_update d new) k
     = (case alist_get (rev new) k of Some v \<Rightarrow> Some v | None \<Rightarrow> alist_get d k)"
proof (induction new arbitrary: d)
  case Nil
  then show ?case by simp
next
  case (Cons a new)
  obtain k' v' where a: "a = (k', v')" by (cases a)
  show ?case
    by (simp add: a Cons.IH alist_get_append alist_get_setitem split: option.splits)
qed

lemma distinct_setitem:
  "distinct (map fst d) \<Longrightarrow> distinct (map fst (dict_setitem d k v))"
  by (simp add: map_fst_setitem)

lemma distinct_update:
  "distinct (map fst d) \<Longrightarrow> distinct (map fst (dict_update d new))"
proof (induction new arbitrary: d)
  case Nil
  then show ?case by simp
next
  case (Cons a new)
  obtain k v where a: "a = (k, v)" by (cases a)
  show ?case using Cons.IH[OF distinct_setitem[OF Cons.prems, of k v]] by (simp add: a)
qed

lemma alist_get_distinct:
  "distinct (map fst d) \<Longrightarrow> (k, v) \<in> set d \<Longrightarrow> alist_get d k = Some v"
proof (induction d)
  case Nil
  then show ?case by simp
next
  case (Cons a d)
  obtain k0 v0 where a: "a = (k0, v0)" by (cases a)
  show ?case
  proof (cases "k0 = k")
    case True
    have "k \<notin> fst ` set d" using Cons.prems(1) by (simp add: a True)
    then have "(k, v) \<notin> set d" by force
    then show ?thesis using Cons.prems(2) by (simp add: a True)
  next
    case False
    then show ?thesis using Cons by (simp add: a)
  qed
qed

text \<open>The loop of \<^verbatim>\<open>get_recent_chats\<close> assigns the entry of every update, in order.\<close>

lemma get_recent_chats_loop_entries:
  "get_recent_chats_loop rc upds = Inr new \<Longrightarrow>
     \<exists>entries. map chat_entry upds = map Inr entries \<and> new = dict_update rc entries"
proof (induction upds arbitrary: rc)
  case Nil
  then show ?case by simp
next
  case (Cons upd upds)
  from Cons.prems obtain k name where ce: "chat_entry upd = Inr (k, name)"
    and l: "get_recent_chats_loop (dict_setitem rc k name) upds = Inr new"
    by (auto split: sum.splits)
  from Cons.IH[OF l] obtain entries where
    m: "map chat_entry upds = map Inr entries" and n: "new = dict_update (dict_setitem rc k name) entries"
    by blast
  show ?case
    by (rule exI[of _ "(k, name) # entries"]) (simp add: ce m n)
qed

lemma split_entries:
  "map f (before @ upd # after) = map g entries \<Longrightarrow>
     \<exists>eb e ea. entries = eb @ e # ea \<and> f upd = g e \<and> map f after = map g ea"
proof (induction before arbitrary: entries)
  case Nil
  then obtain e ea where "entries = e # ea" by (cases entries) auto
  with Nil show ?case by (intro exI[of _ "[]"] exI[of _ e] exI[of _ ea]) simp
next
  case (Cons b before)
  then obtain e0 es where es: "entries = e0 # es" by (cases entries) auto
  with Cons.prems have "map f (before @ upd # after) = map g es" by simp
  from Cons.IH[OF this] obtain eb e ea where
    "es = eb @ e # ea" "f upd = g e" "map f after = map g ea" by blast
  then show ?case
    by (intro exI[of _ "e0 # eb"] exI[of _ e] exI[of _ ea]) (simp add: es)
qed

lemma later_entry_wins:
  assumes l: "get_recent_chats_loop [] upds = Inr new"
      and u: "upds = before @ upd # after"
      and ce: "chat_entry upd = Inr (k, name)"
      and none: "\<forall>u \<in> set after. \<forall>name'. chat_entry u \<noteq> Inr (k, name')"
  shows "alist_get new k = Some name"
proof -
  from get_recent_chats_loop_entries[OF l] obtain entries where
    m: "map chat_entry upds = map Inr entries" and n: "new = dict_update [] entries"
    by blast
  from split_entries[OF m[unfolded u]] obtain eb e ea where
    e1: "entries = eb @ e # ea" and e4: "chat_entry upd = Inr e"
    and ma: "map chat_entry after = map Inr ea"
    by blast
  have e: "e = (k, name)" using e4 ce by simp
  have "k \<notin> fst ` set ea"
  proof
    assume "k \<in> fst ` set ea"
    then obtain name' where "(k, name') \<in> set ea" by auto
    then have "Inr (k, name') \<in> set (map Inr ea)" by simp
    then have "Inr (k, name') \<in> set (map chat_entry after)" using ma by simp
    then have "\<exists>u'\<in>set after. Inr (k, name') = chat_entry u'" by (simp add: image_iff)
    then obtain u' where a: "u' \<in> set after" and b: "Inr (k, name') = chat_entry u'"
      by (rule bexE)
    from bspec[OF none a] have "chat_entry u' \<noteq> Inr (k, name')" by (rule spec)
    then show False using b by simp
  qed
  then have "alist_get (rev ea) k = None" by (simp add: alist_get_None)
  then have "alist_get (rev entries) k = Some name"
    unfolding e1 e by (simp add: alist_get_append)
  then show ?thesis unfolding n by (simp add: alist_get_update)
qed

lemma get_updates_registry:
  "registered_chats (fst (snd (get_updates e limit timeout self w))) = registered_chats self"
  using get_updates_shape[of e limit timeout self w] by auto

lemma add_recent_chats_ok:
  assumes g: "fst (get_updates e 100 0 self w) = Inr updates"
      and it: "py_iter updates = Inr upds"
      and l: "get_recent_chats_loop [] upds = Inr new_chats"
  shows "fst (add_recent_chats e self w) = Inr new_chats"
    and "registered_chats (fst (snd (add_recent_chats e self w)))
           = dict_update (registered_chats self) new_chats"
proof -
  obtain r s1 w1 where gu: "get_updates e 100 0 self w = (r, s1, w1)"
    by (cases "get_updates e 100 0 self w")
  have r: "r = Inr updates" using g gu by simp
  have reg: "registered_chats s1 = registered_chats self"
    using get_updates_registry[of e 100 0 self w] gu by simp
  have a: "add_recent_chats e self w
             = (Inr new_chats, s1\<lparr>registered_chats := dict_update (registered_chats s1) new_chats\<rparr>, w1)"
    by (simp add: add_recent_chats_def get_recent_chats_def gu r it l)
  show "fst (add_recent_chats e self w) = Inr new_chats" by (simp add: a)
  show "registered_chats (fst (snd (add_recent_chats e self w)))
           = dict_update (registered_chats self) new_chats"
    by (simp add: a reg)
qed

lemma alist_get_mem: "alist_get d k = Some v \<Longrightarrow> (k, v) \<in> set d"
proof (induction d)
  case Nil
  then show ?case by simp
next
  case (Cons a d)
  then show ?case by (cases a) (auto split: if_splits)
qed

lemma alist_get_rev_distinct:
  assumes "distinct (map fst d)"
  shows "alist_get (rev d) k = alist_get d k"
proof (cases "alist_get d k")
  case None
  have "k \<notin> fst ` set d"
  proof
    assume "k \<in> fst ` set d"
    then obtain v where "(k, v) \<in> set d" by auto
    from alist_get_distinct[OF assms this] show False using None by simp
  qed
  then show ?thesis using None by (simp add: alist_get_None)
next
  case (Some v)
  have "(k, v) \<in> set (rev d)" using alist_get_mem[OF Some] by simp
  moreover have "distinct (map fst (rev d))" using assms by (simp add: rev_map[symmetric])
  ultimately have "alist_get (rev d) k = Some v" by (rule alist_get_distinct[rotated])
  then show ?thesis using Some by simp
qed

text \<open>Merging a dict: what the new entries assign wins, every other key keeps its name.\<close>

lemma alist_get_merge:
  assumes "distinct (map fst new)"
  shows "alist_get (dict_update d new) k
           = (case alist_get new k of Some v \<Rightarrow> Some v | None \<Rightarrow> alist_get d k)"
  by (simp add: alist_get_update alist_get_rev_distinct[OF assms])

lemma get_recent_chats_loop_distinct:
  "get_recent_chats_loop [] upds = Inr new \<Longrightarrow> distinct (map fst new)"
proof -
  assume "get_recent_chats_loop [] upds = Inr new"
  from get_recent_chats_loop_entries[OF this] obtain entries where "new = dict_update [] entries"
    by blast
  then show ?thesis using distinct_update[of "[]" entries] by simp
qed

text \<open>
  Let \<^verbatim>\<open>get_updates\<close> return a list of messages from which \<^verbatim>\<open>get_recent_chats\<close> extracts
  the entries \<open>new_chats\<close>. Then \<^verbatim>\<open>add_recent_chats\<close> leaves the registry as the
  overwrite-union, by key, of the old registry and \<open>new_chats\<close>: a key of \<open>new_chats\<close> has
  its newly observed name, and every other key keeps its name. When several messages
  carry the same chat id, the name under that key is the one of the latest of them.
\<close>

lemma discovery_merges_by_key:
  assumes g: "fst (get_updates e 100 0 self w) = Inr updates"
      and it: "py_iter updates = Inr upds"
      and l: "get_recent_chats_loop [] upds = Inr new_chats"
  shows "fst (add_recent_chats e self w) = Inr new_chats
       \<and> registered_chats (fst (snd (add_recent_chats e self w)))
           = dict_update (registered_chats self) new_chats
       \<and> (\<forall>k. alist_get (registered_chats (fst (snd (add_recent_chats e self w)))) k
                = (case alist_get new_chats k of
                     Some name \<Rightarrow> Some name
                   | None \<Rightarrow> alist_get (registered_chats self) k))
       \<and> (\<forall>before upd after k name.
             upds = before @ upd # after \<and> chat_entry upd = Inr (k, name)
             \<and> (\<forall>u \<in> set after. \<forall>name'. chat_entry u \<noteq> Inr (k, name'))
             \<longrightarrow> alist_get (registered_chats (fst (snd (add_recent_chats e self w)))) k = Some name
               \<and> (distinct (map fst (registered_chats self))
                    \<longrightarrow> (\<forall>name'. (k, name') \<in> set (registered_chats
                                                      (fst (snd (add_recent_chats e self w))))
                                  \<longrightarrow> name' = name)))"
proof -
  let ?reg = "registered_chats (fst (snd (add_recent_chats e self w)))"
  note a = add_recent_chats_ok[OF g it l]
  have dn: "distinct (map fst new_chats)"
    using get_recent_chats_loop_distinct[OF l] .
  have look: "alist_get ?reg k
                = (case alist_get new_chats k of
                     Some name \<Rightarrow> Some name
                   | None \<Rightarrow> alist_get (registered_chats self) k)" for k
    unfolding a(2) by (rule alist_get_merge[OF dn])
  have later: "alist_get ?reg k = Some name
               \<and> (distinct (map fst (registered_chats self))
                    \<longrightarrow> (\<forall>name'. (k, name') \<in> set ?reg \<longrightarrow> name' = name))"
    if u: "upds = before @ upd # after" and ce: "chat_entry upd = Inr (k, name)"
      and none: "\<forall>u \<in> set after. \<forall>name'. chat_entry u \<noteq> Inr (k, name')"
    for before upd after k name
  proof -
    have n: "alist_get new_chats k = Some name"
      using later_entry_wins[OF l u ce none] .
    have s: "alist_get ?reg k = Some name" by (simp add: look n)
    have "name' = name" if d: "distinct (map fst (registered_chats self))"
      and m: "(k, name') \<in> set ?reg" for name'
    proof -
      have "distinct (map fst ?reg)" unfolding a(2) using d by (rule distinct_update)
      from alist_get_distinct[OF this m] show ?thesis using s by simp
    qed
    then show ?thesis using s by blast
  qed
  show ?thesis using a(1) a(2) look later by blast
qed

lemma get_updates_batch_server:
  assumes "update_ids upds = Some ids"
  shows "fst (get_updates (batch_server upds) limit timeout self w) = Inr (JList upds)"
  using get_updates_ok[where e = "batch_server upds" and self = self and limit = limit
                         and timeout = timeout and w = w, OF batch_server_batch assms]
        batch_server_answered
  by (auto split: if_splits)

lemma renamed_chat_ids: "update_ids renamed_chat = Some [41, 42]"
  by (simp add: renamed_chat_def update_from_def)

lemma renamed_chat_entries:
  "get_recent_chats_loop [] renamed_chat = Inr [(KInt 7, ''Anna B (@annb)'')]"
  by (simp add: renamed_chat_def update_from_def chat_entry_def chat_name_def)

lemma get_recent_chats_registry:
  "registered_chats (fst (snd (get_recent_chats e self w))) = registered_chats self"
proof -
  obtain r s1 w1 where g: "get_updates e 100 0 self w = (r, s1, w1)"
    by (cases "get_updates e 100 0 self w")
  have "registered_chats s1 = registered_chats self"
    using get_updates_registry[of e 100 0 self w] g by simp
  then show ?thesis
    by (simp add: get_recent_chats_def g split: sum.splits)
qed

lemma add_recent_chats_merge:
  assumes "fst (add_recent_chats e self w) = Inr new_chats"
  shows "registered_chats (fst (snd (add_recent_chats e self w)))
           = dict_update (registered_chats self) new_chats"
proof -
  obtain r s1 w1 where g: "get_recent_chats e self w = (r, s1, w1)"
    by (cases "get_recent_chats e self w")
  have reg: "registered_chats s1 = registered_chats self"
    using get_recent_chats_registry[of e self w] g by simp
  have r: "r = Inr new_chats"
    using assms by (cases r) (simp_all add: add_recent_chats_def g)
  show ?thesis by (simp add: add_recent_chats_def g r reg)
qed

text \<open>
  Claim C9. For every registry and every list of new entries, merging the same entries
  twice gives the same dict as merging them once. \<^verbatim>\<open>add_recent_chats\<close> merges with
  \<^verbatim>\<open>self.registered_chats.update(new_chats)\<close>: the registry it leaves is the merge of the
  old registry and the entries it returns, and merging these entries into it once more
  leaves it as it is.
\<close>

theorem merge_idempotent:
  "dict_update (dict_update d new) new = dict_update d new
   \<and> (\<forall>new_chats.
         fst (add_recent_chats e self w) = Inr new_chats \<longrightarrow>
           registered_chats (fst (snd (add_recent_chats e self w)))
             = dict_update (registered_chats self) new_chats
         \<and> dict_update (registered_chats (fst (snd (add_recent_chats e self w)))) new_chats
             = registered_chats (fst (snd (add_recent_chats e self w))))"
proof -
  have "registered_chats (fst (snd (add_recent_chats e self w)))
             = dict_update (registered_chats self) new_chats
         \<and> dict_update (registered_chats (fst (snd (add_recent_chats e self w)))) new_chats
             = registered_chats (fst (snd (add_recent_chats e self w)))"
    if "fst (add_recent_chats e self w) = Inr new_chats" for new_chats
    using add_recent_chats_merge[OF that] by (simp add: dict_update_idem)
  then show ?thesis using dict_update_idem[of d new] by blast
qed

lemma renamed_chat_added:
  "fst (add_recent_chats (batch_server renamed_chat) self w) = Inr [(KInt 7, ''Anna B (@annb)'')]"
proof -
  have it: "py_iter (JList renamed_chat) = Inr renamed_chat" by simp
  show ?thesis
    using add_recent_chats_ok(1)
            [OF get_updates_batch_server[OF renamed_chat_ids] it renamed_chat_entries] .
qed

theorem merge_idempotent_witness:
  "registered_chats (fst (snd (add_recent_chats (batch_server renamed_chat)
          (tgn [(KInt 7, ''Ann''), (KStr ''1'', ''Alice'')]) fresh)))
     = [(KInt 7, ''Anna B (@annb)''), (KStr ''1'', ''Alice'')]
   \<and> dict_update (registered_chats (fst (snd (add_recent_chats (batch_server renamed_chat)
          (tgn [(KInt 7, ''Ann''), (KStr ''1'', ''Alice'')]) fresh))))
        [(KInt 7, ''Anna B (@annb)'')]
     = [(KInt 7, ''Anna B (@annb)''), (KStr ''1'', ''Alice'')]"
  using merge_idempotent [THEN conjunct2, rule_format, OF renamed_chat_added,
          of "tgn [(KInt 7, ''Ann''), (KStr ''1'', ''Alice'')]" fresh]
  by (simp add: tgn_def init_def)

text \<open>
  Claim C8 against the code. Keys are compared as Python compares them. A chat id read
  from the config file is a string (the keys of a JSON object are strings) and the chat
  id of an update is an integer: \<^verbatim>\<open>"7"\<close> and \<open>7\<close> are two keys. With the chat \<open>7\<close>
  registered in the config file, two new messages from chat \<open>7\<close> are extracted to one
  entry that has the name of the later message, but the merge does not replace the
  existing entry of that chat: it keeps its old name, and the new name is added beside
  it under the integer key.
\<close>

theorem config_entry_not_replaced:
  "fst (add_recent_chats (batch_server renamed_chat)
          (tgn (registry_from_config [(''7'', ''Ann <no last name> (@<no username>)'')])) fresh)
     = Inr [(KInt 7, ''Anna B (@annb)'')]
   \<and> registered_chats (fst (snd (add_recent_chats (batch_server renamed_chat)
          (tgn (registry_from_config [(''7'', ''Ann <no last name> (@<no username>)'')])) fresh)))
     = [(KStr ''7'', ''Ann <no last name> (@<no username>)''), (KInt 7, ''Anna B (@annb)'')]"
  using renamed_chat_added
          [of "tgn (registry_from_config [(''7'', ''Ann <no last name> (@<no username>)'')])" fresh]
        add_recent_chats_merge
          [OF renamed_chat_added,
           of "tgn (registry_from_config [(''7'', ''Ann <no last name> (@<no username>)'')])" fresh]
  by (simp add: tgn_def init_def registry_from_config_def)

subsection \<open>Selecting a photo\<close>

lemma download_photo_loop_variants:
  "variants pss = Some vs \<Longrightarrow> download_photo_loop held pss = Inr (foldl select_wider held vs)"
proof (induction pss arbitrary: held vs)
  case Nil
  then show ?case by (cases held) simp
next
  case (Cons ps pss)
  obtain file_id width height where held: "held = (file_id, width, height)" by (cases held)
  from Cons.prems obtain wj pw fid h vs' where
    w: "subscript ps ''width'' = Inr wj" and n: "py_num wj = Inr pw"
    and f: "subscript ps ''file_id'' = Inr fid" and hh: "subscript ps ''height'' = Inr h"
    and v: "variants pss = Some vs'" and vs: "vs = (fid, pw, h) # vs'"
    by (auto split: sum.splits)
  show ?case
  proof (cases "pw > width")
    case True
    then show ?thesis
      using Cons.IH[OF v, of "(fid, pw, h)"] by (simp add: held w n f hh vs select_wider_def)
  next
    case False
    then show ?thesis
      using Cons.IH[OF v, of held] by (simp add: held w n f hh vs select_wider_def)
  qed
qed

lemma foldl_select_keep:
  "\<forall>v \<in> set vs. fst (snd v) \<le> fst (snd held) \<Longrightarrow> foldl select_wider held vs = held"
  by (induction vs) (auto simp: select_wider_def)

lemma foldl_select_below:
  "fst (snd held) < pw \<Longrightarrow> \<forall>v \<in> set vs. fst (snd v) < pw
     \<Longrightarrow> fst (snd (foldl select_wider held vs)) < pw"
  by (induction vs arbitrary: held) (auto simp: select_wider_def)

lemma first_widest:
  assumes "\<forall>v \<in> set before. fst (snd v) < pw" and "\<forall>v \<in> set after. fst (snd v) \<le> pw"
      and "fst (snd held) < pw"
  shows "foldl select_wider held (before @ (fid, pw, h) # after) = (fid, pw, h)"
proof -
  have "fst (snd (foldl select_wider held before)) < pw"
    using foldl_select_below[OF assms(3) assms(1)] .
  then have "select_wider (foldl select_wider held before) (fid, pw, h) = (fid, pw, h)"
    by (simp add: select_wider_def)
  then show ?thesis
    using foldl_select_keep[of after "(fid, pw, h)"] assms(2) by simp
qed

lemma checked_sent:
  "sent (snd (checked_get_request e u dat w)) = sent w @ [Request GET u dat]"
  by (simp add: checked_get_request_def perform_def split: option.splits)

text \<open>
  Whatever the server answers, the first request of \<^verbatim>\<open>download_photo_from_msg\<close> is the
  \<^verbatim>\<open>getFile\<close> request for the file id the loop selected.
\<close>

lemma download_first_request:
  assumes p: "get_default msg ''photo'' JNull = Inr photo" and nn: "photo \<noteq> JNull"
      and it: "py_iter photo = Inr pss"
      and l: "download_photo_loop (JNull, -1, JInt (-1)) pss = Inr (fid, pw, h)"
  shows "\<exists>rest. sent (snd (snd (download_photo_from_msg e msg path self w)))
           = sent w @ get_file_request self fid # rest"
proof -
  obtain r s1 w1 where g: "get e ''getFile'' (Some [(''file_id'', fid)]) self w = (r, s1, w1)"
    by (cases "get e ''getFile'' (Some [(''file_id'', fid)]) self w")
  have w1: "sent w1 = sent w @ [get_file_request self fid]"
    using get_effect(2)[OF g] by (simp add: get_file_request_def)
  have d: "download_photo_from_msg e msg path self w
      = (case r of
           Inl err \<Rightarrow> (Inl err, s1, w1)
         | Inr dat \<Rightarrow>
             (case subscript dat ''result'' of
                Inl err \<Rightarrow> (Inl err, s1, w1)
              | Inr file_obj \<Rightarrow>
                  (case subscript file_obj ''file_path'' of
                     Inl err \<Rightarrow> (Inl err, s1, w1)
                   | Inr fp \<Rightarrow>
                       (case as_str fp of
                          Inl err \<Rightarrow> (Inl err, s1, w1)
                        | Inr file_path \<Rightarrow>
                            (let ext = snd (splitext file_path);
                                 dl_url = file_url (api_key s1) file_path
                             in case checked_get_request e dl_url None w1 of
                                  (Inl err, w2) \<Rightarrow> (Inl err, s1, w2)
                                | (Inr r, w2) \<Rightarrow>
                                    (let full_path = path @ ext
                                     in (Inr full_path, s1,
                                         w2\<lparr>files := files w2 @ [(full_path, content r)]\<rparr>)))))))"
    using nn by (simp add: download_photo_from_msg_def p it l g split: sum.splits)
  have c: "\<exists>rest. sent (snd (checked_get_request e u None w1))
             = sent w @ get_file_request self fid # rest" for u
    by (simp add: checked_sent w1)
  show ?thesis
  proof (cases r)
    case (Inl err)
    then show ?thesis by (simp add: d w1)
  next
    case dat: (Inr dat)
    show ?thesis
    proof (cases "subscript dat ''result''")
      case (Inl err)
      then show ?thesis by (simp add: d dat w1)
    next
      case fo: (Inr file_obj)
      show ?thesis
      proof (cases "subscript file_obj ''file_path''")
        case (Inl err)
        then show ?thesis by (simp add: d dat fo w1)
      next
        case fp: (Inr fp)
        show ?thesis
        proof (cases "as_str fp")
          case (Inl err)
          then show ?thesis by (simp add: d dat fo fp w1)
        next
          case path: (Inr file_path)
          let ?u = "file_url (api_key s1) file_path"
          obtain r2 w2 where cg: "checked_get_request e ?u None w1 = (r2, w2)"
            by (cases "checked_get_request e ?u None w1")
          have w2: "\<exists>rest. sent w2 = sent w @ get_file_request self fid # rest"
            using c[of ?u] cg by simp
          show ?thesis
            using w2 by (cases r2) (simp_all add: d dat fo fp path Let_def cg)
        qed
      qed
    qed
  qed
qed


text \<open>
  When the server answers the \<^verbatim>\<open>getFile\<close> request with a file path and answers the
  download of that path, \<^verbatim>\<open>download_photo_from_msg\<close> sends these two requests and writes
  the downloaded bytes to the given path with the extension of the file path.
\<close>

lemma download_complete:
  assumes p: "get_default msg ''photo'' JNull = Inr photo" and nn: "photo \<noteq> JNull"
      and it: "py_iter photo = Inr pss"
      and l: "download_photo_loop (JNull, -1, JInt (-1)) pss = Inr (fid, pw, h)"
      and a1: "server e (sent w) (get_file_request self fid) = Some res"
      and st: "status_code res = 200" and jb: "json_body res = Some dat"
      and fo: "subscript dat ''result'' = Inr file_obj"
      and fp: "subscript file_obj ''file_path'' = Inr (JStr fp)"
      and a2: "server e (sent w @ [get_file_request self fid])
                 (Request GET (file_url (api_key self) fp) None) = Some res2"
      and st2: "status_code res2 = 200"
  shows "download_photo_from_msg e msg path self w
           = (Inr (path @ snd (splitext fp)), self,
              w\<lparr>sent := sent w @ [get_file_request self fid,
                                    Request GET (file_url (api_key self) fp) None],
                files := files w @ [(path @ snd (splitext fp), content res2)]\<rparr>)"
proof -
  let ?w1 = "w\<lparr>sent := sent w @ [get_file_request self fid]\<rparr>"
  have g: "get e ''getFile'' (Some [(''file_id'', fid)]) self w = (Inr dat, self, ?w1)"
    using a1 st jb by (simp add: get_cases Let_def get_file_request_def)
  have c: "checked_get_request e (file_url (api_key self) fp) None ?w1
             = (Inr res2, ?w1\<lparr>sent := sent ?w1 @ [Request GET (file_url (api_key self) fp) None]\<rparr>)"
    using a2 st2 by (simp add: checked_get_request_def perform_def)
  show ?thesis
    using nn by (simp add: download_photo_from_msg_def p it l g fo fp c Let_def)
qed

text \<open>
  Claim C6, as amended. Let every photo size of the list have a file id, a height and a
  numeric width, and let the greatest width be greater than \<open>-1\<close>. Then the selection
  loop ends holding the first variant, in iteration order, whose width is the greatest
  (every variant before it is narrower, none after it is wider), and the first request
  of \<^verbatim>\<open>download_photo_from_msg\<close> is the \<^verbatim>\<open>getFile\<close> request for the file id of that variant.
  When the server answers that request with a file path and answers the download of
  that path, the call sends exactly these two requests, writes the bytes it downloaded
  to the given path with the extension of the file path, and returns that name.
\<close>

theorem first_widest_selected:
  assumes v: "variants pss = Some (before @ (fid, pw, h) # after)"
      and b: "\<forall>v \<in> set before. fst (snd v) < pw"
      and a: "\<forall>v \<in> set after. fst (snd v) \<le> pw"
      and p: "-1 < pw"
  shows "download_photo_loop (JNull, -1, JInt (-1)) pss = Inr (fid, pw, h)
       \<and> (\<forall>msg photo.
             get_default msg ''photo'' JNull = Inr photo \<and> photo \<noteq> JNull
             \<and> py_iter photo = Inr pss \<longrightarrow>
               (\<exists>rest. sent (snd (snd (download_photo_from_msg e msg path self w)))
                         = sent w @ get_file_request self fid # rest)
             \<and> (\<forall>res dat file_obj fp res2.
                   server e (sent w) (get_file_request self fid) = Some res
                   \<and> status_code res = 200 \<and> json_body res = Some dat
                   \<and> subscript dat ''result'' = Inr file_obj
                   \<and> subscript file_obj ''file_path'' = Inr (JStr fp)
                   \<and> server e (sent w @ [get_file_request self fid])
                        (Request GET (file_url (api_key self) fp) None) = Some res2
                   \<and> status_code res2 = 200
                   \<longrightarrow> download_photo_from_msg e msg path self w
                       = (Inr (path @ snd (splitext fp)), self,
                          w\<lparr>sent := sent w @ [get_file_request self fid,
                                                Request GET (file_url (api_key self) fp) None],
                            files := files w @ [(path @ snd (splitext fp), content res2)]\<rparr>)))"
proof -
  have l: "download_photo_loop (JNull, -1, JInt (-1)) pss = Inr (fid, pw, h)"
    using download_photo_loop_variants[OF v, of "(JNull, -1, JInt (-1))"]
          first_widest[OF b a, of "(JNull, -1, JInt (-1))" fid h] p
    by simp
  have req: "\<exists>rest. sent (snd (snd (download_photo_from_msg e msg path self w)))
                 = sent w @ get_file_request self fid # rest"
    if "get_default msg ''photo'' JNull = Inr photo" "photo \<noteq> JNull" "py_iter photo = Inr pss"
    for msg photo
    using download_first_request[OF that l] .
  have dl: "download_photo_from_msg e msg path self w
              = (Inr (path @ snd (splitext fp)), self,
                 w\<lparr>sent := sent w @ [get_file_request self fid,
                                       Request GET (file_url (api_key self) fp) None],
                   files := files w @ [(path @ snd (splitext fp), content res2)]\<rparr>)"
    if "get_default msg ''photo'' JNull = Inr photo" "photo \<noteq> JNull" "py_iter photo = Inr pss"
       "server e (sent w) (get_file_request self fid) = Some res"
       "status_code res = 200" "json_body res = Some dat"
       "subscript dat ''result'' = Inr file_obj"
       "subscript file_obj ''file_path'' = Inr (JStr fp)"
       "server e (sent w @ [get_file_request self fid])
          (Request GET (file_url (api_key self) fp) None) = Some res2"
       "status_code res2 = 200"
    for msg photo res dat file_obj fp res2
    using download_complete[OF that(1,2,3) l that(4-10)] .
  show ?thesis using l req dl by blast
qed


lemma four_sizes:
  "variants [photo_size ''s'' 90 60, photo_size ''m'' 320 213, photo_size ''m2'' 320 214,
             photo_size ''x'' 100 66]
     = Some ([(JStr ''s'', 90, JInt 60)] @ (JStr ''m'', 320, JInt 213)
               # [(JStr ''m2'', 320, JInt 214), (JStr ''x'', 100, JInt 66)])"
  by (simp add: photo_size_def)

lemma splitext_jpg: "splitext ''photos/file_1.jpg'' = (''photos/file_1'', ''.jpg'')"
  by (simp add: splitext_def Let_def)

lemma file_server_answers:
  "server file_server (sent fresh) (get_file_request (tgn []) (JStr ''m''))
     = Some (Response 200 ''JPEG''
               (Some (JObj [(''ok'', JBool True),
                            (''result'', JObj [(''file_path'', JStr ''photos/file_1.jpg'')])])))
   \<and> status_code (Response 200 ''JPEG''
               (Some (JObj [(''ok'', JBool True),
                            (''result'', JObj [(''file_path'', JStr ''photos/file_1.jpg'')])]))) = 200
   \<and> json_body (Response 200 ''JPEG''
               (Some (JObj [(''ok'', JBool True),
                            (''result'', JObj [(''file_path'', JStr ''photos/file_1.jpg'')])])))
       = Some (JObj [(''ok'', JBool True),
                     (''result'', JObj [(''file_path'', JStr ''photos/file_1.jpg'')])])
   \<and> subscript (JObj [(''ok'', JBool True),
                       (''result'', JObj [(''file_path'', JStr ''photos/file_1.jpg'')])]) ''result''
       = Inr (JObj [(''file_path'', JStr ''photos/file_1.jpg'')])
   \<and> subscript (JObj [(''file_path'', JStr ''photos/file_1.jpg'')]) ''file_path''
       = Inr (JStr ''photos/file_1.jpg'')
   \<and> server file_server (sent fresh @ [get_file_request (tgn []) (JStr ''m'')])
         (Request GET (file_url (api_key (tgn [])) ''photos/file_1.jpg'') None)
       = Some (Response 200 ''JPEG''
               (Some (JObj [(''ok'', JBool True),
                            (''result'', JObj [(''file_path'', JStr ''photos/file_1.jpg'')])])))
   \<and> status_code (Response 200 ''JPEG''
               (Some (JObj [(''ok'', JBool True),
                            (''result'', JObj [(''file_path'', JStr ''photos/file_1.jpg'')])]))) = 200"
  by (simp add: file_server_def always_def)

lemma four_sizes_msg:
  "get_default (photo_msg [photo_size ''s'' 90 60, photo_size ''m'' 320 213,
                           photo_size ''m2'' 320 214, photo_size ''x'' 100 66])
     ''photo'' JNull
     = Inr (JList [photo_size ''s'' 90 60, photo_size ''m'' 320 213,
                   photo_size ''m2'' 320 214, photo_size ''x'' 100 66])
   \<and> JList [photo_size ''s'' 90 60, photo_size ''m'' 320 213,
             photo_size ''m2'' 320 214, photo_size ''x'' 100 66] \<noteq> JNull
   \<and> py_iter (JList [photo_size ''s'' 90 60, photo_size ''m'' 320 213,
                      photo_size ''m2'' 320 214, photo_size ''x'' 100 66])
     = Inr [photo_size ''s'' 90 60, photo_size ''m'' 320 213,
            photo_size ''m2'' 320 214, photo_size ''x'' 100 66]"
  by (simp add: photo_msg_def)

theorem first_widest_selected_witness:
  "download_photo_loop (JNull, -1, JInt (-1))
     [photo_size ''s'' 90 60, photo_size ''m'' 320 213, photo_size ''m2'' 320 214,
      photo_size ''x'' 100 66] = Inr (JStr ''m'', 320, JInt 213)
   \<and> download_photo_from_msg file_server
         (photo_msg [photo_size ''s'' 90 60, photo_size ''m'' 320 213,
                     photo_size ''m2'' 320 214, photo_size ''x'' 100 66])
         ''/tmp/pic'' (tgn []) fresh
     = (Inr ''/tmp/pic.jpg'', tgn [],
        \<lparr>sent = [get_file_request (tgn []) (JStr ''m''),
                 Request GET (file_url ''TOKEN'' ''photos/file_1.jpg'') None],
         logged = [], files = [(''/tmp/pic.jpg'', ''JPEG'')]\<rparr>)"
proof -
  have b: "\<forall>v \<in> set [(JStr ''s'', 90::int, JInt 60)]. fst (snd v) < 320" by simp
  have a: "\<forall>v \<in> set [(JStr ''m2'', 320::int, JInt 214), (JStr ''x'', 100, JInt 66)].
             fst (snd v) \<le> 320" by simp
  have p: "-1 < (320::int)" by simp
  note t = first_widest_selected
             [OF four_sizes b a p, where e = file_server and path = "''/tmp/pic''"
                and self = "tgn []" and w = fresh]
  note d = t[THEN conjunct2, rule_format, OF four_sizes_msg,
             THEN conjunct2, rule_format, OF file_server_answers]
  show ?thesis
    using t[THEN conjunct1] d
    by (simp add: splitext_jpg tgn_def init_def fresh_def get_file_request_def)
qed

text \<open>
  Claim C6 as it is stated says that among variants of equal greatest width the last one
  is downloaded. The loop replaces the variant it holds only for a strictly greater
  width (\<^verbatim>\<open>ps["width"] > width\<close>): of two variants of width 90 the first one is kept
  and its file is the one requested and saved. And a list whose widths do not exceed the
  initial \<open>-1\<close> selects no variant at all.
\<close>

theorem tie_keeps_first_counterexample:
  "download_photo_loop (JNull, -1, JInt (-1)) [photo_size ''first'' 90 60, photo_size ''second'' 90 60]
     = Inr (JStr ''first'', 90, JInt 60)
   \<and> download_photo_from_msg file_server
         (photo_msg [photo_size ''first'' 90 60, photo_size ''second'' 90 60])
         ''/tmp/pic'' (tgn []) fresh
     = (Inr ''/tmp/pic.jpg'', tgn [],
        \<lparr>sent = [get_file_request (tgn []) (JStr ''first''),
                 Request GET (file_url ''TOKEN'' ''photos/file_1.jpg'') None],
         logged = [], files = [(''/tmp/pic.jpg'', ''JPEG'')]\<rparr>)
   \<and> download_photo_loop (JNull, -1, JInt (-1)) [photo_size ''tiny'' (-1) 0]
     = Inr (JNull, -1, JInt (-1))"
  by (simp add: photo_size_def photo_msg_def download_photo_from_msg_def get_cases
        checked_get_request_def perform_def file_server_def always_def Let_def splitext_jpg
        get_file_request_def tgn_def init_def fresh_def)

end
